theory Spec2Isabelle
  imports Main
begin

section \<open>Python values\<close>

text \<open>
  A Python \<^verbatim>\<open>str\<close> is a sequence of Unicode code points and \<^verbatim>\<open>len\<close> counts code
  points, so a string is modelled as the list of its code points. The Cyrillic words, the
  dashes and the emoji of the bot's messages are written by their code points.
\<close>

type_synonym ustr = "nat list"

definition ascii :: "string \<Rightarrow> ustr" where
  "ascii s = map of_char s"

text \<open>\<^verbatim>\<open>str(n)\<close> for an integer: the decimal digits, with a minus sign when negative.\<close>

fun digits :: "nat \<Rightarrow> ustr" where
  "digits n = (if n < 10 then [48 + n] else digits (n div 10) @ [48 + n mod 10])"

declare digits.simps [simp del]

definition py_str_int :: "int \<Rightarrow> ustr" where
  "py_str_int i = (if i < 0 then 45 # digits (nat (- i)) else digits (nat i))"

text \<open>
  \<^verbatim>\<open>str.isspace\<close> of one character: the code points Python treats as whitespace.
  \<^verbatim>\<open>str.strip()\<close> removes them at both ends.
\<close>

definition is_space :: "nat \<Rightarrow> bool" where
  "is_space c = (c \<in> set [9, 10, 11, 12, 13, 28, 29, 30, 31, 32, 133, 160, 5760,
     8192, 8193, 8194, 8195, 8196, 8197, 8198, 8199, 8200, 8201, 8202,
     8232, 8233, 8239, 8287, 12288])"

definition py_strip :: "ustr \<Rightarrow> ustr" where
  "py_strip s = rev (dropWhile is_space (rev (dropWhile is_space s)))"

text \<open>
  \<^verbatim>\<open>int(s)\<close> for a string: surrounding whitespace is dropped, a sign may come first, the
  rest must be decimal digits; anything else raises ValueError (the value \<open>None\<close>). The
  digit separators \<^verbatim>\<open>_\<close> and the non-ASCII digits that \<^verbatim>\<open>int\<close> also accepts are not
  modelled: the bot only reads back what \<^verbatim>\<open>str\<close> of an integer wrote.
\<close>

definition is_digit :: "nat \<Rightarrow> bool" where
  "is_digit c = (48 \<le> c \<and> c \<le> 57)"

definition digits_value :: "ustr \<Rightarrow> nat" where
  "digits_value ds = foldl (\<lambda>acc c. 10 * acc + (c - 48)) 0 ds"

definition unsigned_int :: "ustr \<Rightarrow> nat option" where
  "unsigned_int ds = (if ds \<noteq> [] \<and> list_all is_digit ds then Some (digits_value ds) else None)"

definition py_int :: "ustr \<Rightarrow> int option" where
  "py_int s =
     (case py_strip s of
        [] \<Rightarrow> None
      | c # cs \<Rightarrow>
          if c = 45 then map_option (\<lambda>n. - int n) (unsigned_int cs)
          else if c = 43 then map_option int (unsigned_int cs)
          else map_option int (unsigned_int (c # cs)))"

text \<open>
  The ways a handler ends other than by returning: the 403 of the token check, the Python
  exceptions the code can raise, a failed call of the job board or of the language model
  (\<open>UpstreamError\<close>), a \<^verbatim>\<open>TelegramBadRequest\<close> with the reason its handlers look for, and any
  other failure of the Telegram client.
\<close>

datatype bad_request = NotModified | EditNotFound | OtherBadRequest

datatype error =
    HTTP403
  | ValueError
  | RuntimeError
  | AttributeError
  | NameError
  | IndexError
  | UpstreamError
  | TelegramBadRequest bad_request
  | TelegramFailure

section \<open>The SQLite store and the process state\<close>

text \<open>
  Table \<^verbatim>\<open>user_settings(tg_user, key, value, PRIMARY KEY (tg_user, key))\<close> of
  \<^verbatim>\<open>migrate_settings.py\<close>: a row list; \<^verbatim>\<open>value\<close> is nullable.
\<close>

record setting_row =
  s_user :: int
  s_key :: ustr
  s_value :: "ustr option"

record store =
  user_settings :: "setting_row list"

definition row_is :: "int \<Rightarrow> ustr \<Rightarrow> setting_row \<Rightarrow> bool" where
  "row_is uid k r = (s_user r = uid \<and> s_key r = k)"

text \<open>
  \<^verbatim>\<open>INSERT OR REPLACE INTO user_settings (tg_user, key, value) VALUES (?, ?, ?)\<close>:
  the rows that conflict with the new one on the primary key are deleted, then the new
  row is inserted.
\<close>

definition insert_or_replace :: "setting_row \<Rightarrow> setting_row list \<Rightarrow> setting_row list" where
  "insert_or_replace r rows =
     filter (\<lambda>x. \<not> row_is (s_user r) (s_key r) x) rows @ [r]"

text \<open>\<^verbatim>\<open>SELECT value ... WHERE tg_user = ? AND key = ?\<close> with \<^verbatim>\<open>fetchone\<close>, then
  \<^verbatim>\<open>row[0] if row else None\<close>: a missing row and a NULL value both read as None.\<close>

definition select_value :: "int \<Rightarrow> ustr \<Rightarrow> setting_row list \<Rightarrow> ustr option" where
  "select_value uid k rows =
     (case find (row_is uid k) rows of None \<Rightarrow> None | Some r \<Rightarrow> s_value r)"

definition save_user_setting :: "int \<Rightarrow> ustr \<Rightarrow> ustr \<Rightarrow> 'a store_scheme \<Rightarrow> 'a store_scheme" where
  "save_user_setting uid k v st =
     st\<lparr>user_settings :=
          insert_or_replace \<lparr>s_user = uid, s_key = k, s_value = Some v\<rparr> (user_settings st)\<rparr>"

definition get_user_setting :: "int \<Rightarrow> ustr \<Rightarrow> 'a store_scheme \<Rightarrow> ustr option" where
  "get_user_setting uid k st = select_value uid k (user_settings st)"

section \<open>The rotating page counter\<close>

definition jobs_page_key :: ustr where
  "jobs_page_key = ascii ''jobs_page''"

text \<open>
  \<^verbatim>\<open>next_jobs_page\<close>: \<^verbatim>\<open>curr = int(await get_user_setting(uid, "jobs_page") or 0)\<close>, so a
  missing row, a NULL and the empty string all read as 0; a stored text that is no
  integer raises ValueError before anything is written.
\<close>

definition next_jobs_page :: "int \<Rightarrow> 'a store_scheme \<Rightarrow> (error + int) \<times> 'a store_scheme" where
  "next_jobs_page uid st =
     (case (case get_user_setting uid jobs_page_key st of
              None \<Rightarrow> Some 0
            | Some s \<Rightarrow> if s = [] then Some 0 else py_int s) of
        None \<Rightarrow> (Inl ValueError, st)
      | Some prior \<Rightarrow>
          let new = (if prior < 19 then prior + 1 else 0)
          in (Inr prior, save_user_setting uid jobs_page_key (py_str_int new) st))"

text \<open>\<open>n\<close> successive calls for one user: the values returned, in order.\<close>

fun advance_times :: "nat \<Rightarrow> int \<Rightarrow> 'a store_scheme \<Rightarrow> (error + int) list \<times> 'a store_scheme" where
  "advance_times 0 uid st = ([], st)"
| "advance_times (Suc n) uid st =
     (case next_jobs_page uid st of (r, st') \<Rightarrow>
        (case advance_times n uid st' of (rs, st'') \<Rightarrow> (r # rs, st'')))"

section \<open>Multi-value settings\<close>

text \<open>\<^verbatim>\<open>s.split(",")\<close> and \<^verbatim>\<open>",".join(xs)\<close>.\<close>

fun split_on :: "nat \<Rightarrow> ustr \<Rightarrow> ustr list" where
  "split_on sep [] = [[]]"
| "split_on sep (c # cs) =
     (if c = sep then [] # split_on sep cs
      else (case split_on sep cs of [] \<Rightarrow> [[c]] | p # ps \<Rightarrow> (c # p) # ps))"

fun py_join :: "ustr \<Rightarrow> ustr list \<Rightarrow> ustr" where
  "py_join sep [] = []"
| "py_join sep [x] = x"
| "py_join sep (x # y # ys) = x @ sep @ py_join sep (y # ys)"

text \<open>
  \<^verbatim>\<open>{v.strip() for v in curr.split(",") if v.strip()}\<close>: the selected values of a stored
  comma-joined text, here in order of first occurrence. The same expression builds the
  checkmarks of the suggestion keyboard in the \<^verbatim>\<open>filter_\<close> branch.
\<close>

definition parse_items :: "ustr \<Rightarrow> ustr list" where
  "parse_items s = remdups (filter (\<lambda>v. v \<noteq> []) (map py_strip (split_on 44 s)))"

definition selected_values :: "int \<Rightarrow> ustr \<Rightarrow> 'a store_scheme \<Rightarrow> ustr set" where
  "selected_values uid k st =
     set (parse_items (case get_user_setting uid k st of None \<Rightarrow> [] | Some s \<Rightarrow> s))"

text \<open>
  \<^verbatim>\<open>toggle_multi_value\<close>. \<open>items\<close> is a Python set: \<^verbatim>\<open>",".join(items)\<close> writes its
  elements in the set's iteration order, which the language leaves open. The parameter
  \<open>order\<close> is that order: it rearranges the elements.
\<close>

definition toggle_multi_value ::
  "(ustr list \<Rightarrow> ustr list) \<Rightarrow> int \<Rightarrow> ustr \<Rightarrow> ustr \<Rightarrow> 'a store_scheme \<Rightarrow> ustr set \<times> 'a store_scheme"
where
  "toggle_multi_value order uid k v st =
     (let stored = (case get_user_setting uid k st of None \<Rightarrow> [] | Some s \<Rightarrow> s);
          items = parse_items stored;
          items' = (if v \<in> set items then removeAll v items else items @ [v])
      in (set items', save_user_setting uid k (py_join [44] (order items')) st))"

section \<open>Vacancy cards\<close>

text \<open>
  A vacancy is the dict that \<^verbatim>\<open>run_jobs\<close> builds and \<^verbatim>\<open>format_vacancy\<close> reads. The values
  of a salary dict are JSON scalars (the job board sends integers or null for the bounds
  and a string for the currency); floats and nested containers are outside the model.
\<close>

datatype scalar = SNone | SBool bool | SInt int | SStr ustr

text \<open>Truth value of a scalar, and its rendering in an f-string.\<close>

fun truthy :: "scalar \<Rightarrow> bool" where
  "truthy SNone = False"
| "truthy (SBool b) = b"
| "truthy (SInt i) = (i \<noteq> 0)"
| "truthy (SStr s) = (s \<noteq> [])"

fun py_format :: "scalar \<Rightarrow> ustr" where
  "py_format SNone = ascii ''None''"
| "py_format (SBool b) = (if b then ascii ''True'' else ascii ''False'')"
| "py_format (SInt i) = py_str_int i"
| "py_format (SStr s) = s"

text \<open>
  The \<^verbatim>\<open>salary\<close> entry: missing, present but no dict (null, a number, a string), or a dict
  given by its items.
\<close>

datatype salary_field = SalaryMissing | SalaryNoDict | SalaryDict "(ustr \<times> scalar) list"

datatype logo_field = LogosMissing | LogosNull | Logos "ustr option"

datatype employer_field =
    EmployerMissing
  | EmployerNull
  | Employer "ustr option" logo_field

datatype snippet_field =
    SnippetNone
  | SnippetText ustr
  | SnippetDict "ustr option" "ustr option"

record vacancy =
  v_id :: ustr
  v_name :: ustr
  v_url :: ustr
  v_salary :: salary_field
  v_employer :: employer_field
  v_snippet :: snippet_field
  v_description :: "ustr option"

definition not_specified :: ustr where
  "not_specified = [1085, 1077, 32, 1091, 1082, 1072, 1079, 1072, 1085, 1072]"

definition en_dash :: nat where "en_dash = 8211"

definition ellipsis :: nat where "ellipsis = 8230"

definition word_from :: ustr where "word_from = [1086, 1090]"

definition word_to :: ustr where "word_to = [1076, 1086]"

text \<open>
  The salary line of \<^verbatim>\<open>format_vacancy\<close>: \<^verbatim>\<open>fr, to, cur = s.get("from"), s.get("to"),
  s.get("currency", "")\<close>, then the three-way test on the truth values of \<open>fr\<close> and \<open>to\<close>.
\<close>

definition dict_get :: "(ustr \<times> scalar) list \<Rightarrow> string \<Rightarrow> scalar \<Rightarrow> scalar" where
  "dict_get d k dflt = (case map_of d (ascii k) of None \<Rightarrow> dflt | Some x \<Rightarrow> x)"

definition format_salary :: "salary_field \<Rightarrow> ustr" where
  "format_salary sal =
     (case sal of
        SalaryDict s \<Rightarrow>
          (let fr = dict_get s ''from'' SNone;
               to = dict_get s ''to'' SNone;
               cur = dict_get s ''currency'' (SStr [])
           in if truthy fr \<and> truthy to then
                py_format fr @ [en_dash] @ py_format to @ [32] @ py_format cur
              else if truthy fr then word_from @ [32] @ py_format fr @ [32] @ py_format cur
              else if truthy to then word_to @ [32] @ py_format to @ [32] @ py_format cur
              else not_specified)
      | _ \<Rightarrow> not_specified)"

text \<open>\<^verbatim>\<open>strip_html\<close>: \<^verbatim>\<open>re.sub(r"<[^>]+>", "", text or "")\<close>. A match starts at a
  \<^verbatim>\<open><\<close> that is followed by at least one character other than \<^verbatim>\<open>>\<close> and then a
  \<^verbatim>\<open>>\<close>; it ends at the first \<^verbatim>\<open>>\<close>.\<close>

function strip_html :: "ustr \<Rightarrow> ustr" where
  "strip_html [] = []"
| "strip_html (c # cs) =
     (if c = 60 \<and> takeWhile (\<lambda>x. x \<noteq> 62) cs \<noteq> [] \<and> dropWhile (\<lambda>x. x \<noteq> 62) cs \<noteq> []
      then strip_html (tl (dropWhile (\<lambda>x. x \<noteq> 62) cs))
      else c # strip_html cs)"
  by pat_completeness auto
termination
proof (relation "measure length")
  fix c :: nat and cs :: ustr
  assume "c = 60 \<and> takeWhile (\<lambda>x. x \<noteq> 62) cs \<noteq> [] \<and> dropWhile (\<lambda>x. x \<noteq> 62) cs \<noteq> []"
  have "length (tl (dropWhile (\<lambda>x. x \<noteq> 62) cs)) \<le> length (dropWhile (\<lambda>x. x \<noteq> 62) cs)"
    by simp
  also have "\<dots> \<le> length cs" by (rule length_dropWhile_le)
  finally show "(tl (dropWhile (\<lambda>x. x \<noteq> 62) cs), c # cs) \<in> measure length" by simp
qed simp_all

text \<open>
  \<^verbatim>\<open>wrap_long\<close> is \<^verbatim>\<open>"\n".join(textwrap.wrap(text, width=60))\<close>. The standard library's
  \<^verbatim>\<open>TextWrapper\<close> with its default options: tabs are expanded to multiples of 8 columns
  and every ASCII whitespace character becomes a space; the text is split into chunks;
  the chunks are laid out greedily, and a chunk longer than the width is cut.
\<close>

fun expandtabs :: "nat \<Rightarrow> ustr \<Rightarrow> ustr" where
  "expandtabs col [] = []"
| "expandtabs col (c # cs) =
     (if c = 9 then replicate (8 - col mod 8) 32 @ expandtabs (col + (8 - col mod 8)) cs
      else if c = 10 \<or> c = 13 then c # expandtabs 0 cs
      else c # expandtabs (col + 1) cs)"

definition is_ws :: "nat \<Rightarrow> bool" where
  "is_ws c = (c \<in> set [9, 10, 11, 12, 13, 32])"

definition munge_whitespace :: "ustr \<Rightarrow> ustr" where
  "munge_whitespace text = map (\<lambda>c. if is_ws c then 32 else c) (expandtabs 0 text)"

text \<open>\<^verbatim>\<open>chunk.strip() == ''\<close>.\<close>

definition is_blank :: "ustr \<Rightarrow> bool" where
  "is_blank chunk = list_all is_space chunk"

text \<open>The inner loop of \<^verbatim>\<open>_wrap_chunks\<close>: chunks are taken while they fit.\<close>

fun fill_line :: "nat \<Rightarrow> nat \<Rightarrow> ustr list \<Rightarrow> ustr list \<times> ustr list" where
  "fill_line w n [] = ([], [])"
| "fill_line w n (c # cs) =
     (if n + length c \<le> w
      then (case fill_line w (n + length c) cs of (taken, rest) \<Rightarrow> (c # taken, rest))
      else ([], c # cs))"

text \<open>\<^verbatim>\<open>chunk.rfind('-', 0, space_left)\<close>: the index of the last hyphen among the first
  \<open>space_left\<close> characters.\<close>

definition rfind_hyphen :: "ustr \<Rightarrow> nat option" where
  "rfind_hyphen s =
     (case dropWhile (\<lambda>x. x \<noteq> 45) (rev s) of [] \<Rightarrow> None | _ # before \<Rightarrow> Some (length before))"

text \<open>\<^verbatim>\<open>_handle_long_word\<close>: the piece put on the current line and what is left of the
  chunk.\<close>

definition handle_long_word :: "nat \<Rightarrow> nat \<Rightarrow> ustr \<Rightarrow> ustr \<times> ustr" where
  "handle_long_word w cur_len chunk =
     (let space_left = (if w < 1 then 1 else w - cur_len);
          cut = (if length chunk > space_left then
                   (case rfind_hyphen (take space_left chunk) of
                      None \<Rightarrow> space_left
                    | Some h \<Rightarrow>
                        if 0 < h \<and> list_ex (\<lambda>c. c \<noteq> 45) (take h chunk) then h + 1
                        else space_left)
                 else space_left)
      in (take cut chunk, drop cut chunk))"

text \<open>One round of the outer loop of \<^verbatim>\<open>_wrap_chunks\<close>: the line it emits, if any, and the
  chunks left. \<open>started\<close> says that a line has been emitted before.\<close>

definition next_line :: "nat \<Rightarrow> bool \<Rightarrow> ustr list \<Rightarrow> ustr option \<times> ustr list" where
  "next_line w started chunks =
     (let chunks1 = (if chunks \<noteq> [] \<and> is_blank (hd chunks) \<and> started then tl chunks else chunks);
          filled = fill_line w 0 chunks1;
          taken = fst filled;
          rest = snd filled;
          cur = (case rest of
                   [] \<Rightarrow> (taken, rest)
                 | c # cs \<Rightarrow>
                     if length c > w then
                       (let cutc = handle_long_word w (length (concat taken)) c
                        in (taken @ [fst cutc], snd cutc # cs))
                     else (taken, rest));
          cur_line = (if fst cur \<noteq> [] \<and> is_blank (last (fst cur)) then butlast (fst cur)
                      else fst cur)
      in (if cur_line \<noteq> [] then Some (concat cur_line) else None, snd cur))"

text \<open>The outer loop ends: every round takes a chunk off the list or shortens one.\<close>

definition chunk_measure :: "ustr list \<Rightarrow> nat" where
  "chunk_measure chunks = length (concat chunks) + length chunks"

lemma fill_line_split: "fill_line w n cs = (t, r) \<Longrightarrow> cs = t @ r"
  by (induction cs arbitrary: n t r) (auto split: if_splits prod.splits)

lemma fill_line_none: "fst (fill_line w n cs) = [] \<Longrightarrow> cs \<noteq> [] \<Longrightarrow> w < n + length (hd cs)"
  by (cases cs) (auto split: if_splits prod.splits)

lemma handle_long_word_cut:
  assumes "chunk \<noteq> []" "cur_len = 0"
  shows "length (snd (handle_long_word w cur_len chunk)) < length chunk"
  using assms by (auto simp: handle_long_word_def Let_def split: option.splits)

lemma handle_long_word_le: "length (snd (handle_long_word w n chunk)) \<le> length chunk"
  by (simp add: handle_long_word_def Let_def)

lemma next_line_decreases:
  assumes "chunks \<noteq> []"
  shows "chunk_measure (snd (next_line w started chunks)) < chunk_measure chunks"
proof -
  define chunks1 where "chunks1 = (if chunks \<noteq> [] \<and> is_blank (hd chunks) \<and> started then tl chunks else chunks)"
  define taken where "taken = fst (fill_line w 0 chunks1)"
  define rest where "rest = snd (fill_line w 0 chunks1)"
  have c1: "chunk_measure chunks1 \<le> chunk_measure chunks"
    using assms by (cases chunks) (auto simp: chunks1_def chunk_measure_def)
  have split: "chunks1 = taken @ rest"
    by (rule fill_line_split [of w 0]) (simp add: taken_def rest_def)
  have m: "chunk_measure chunks1 = chunk_measure taken + chunk_measure rest"
    by (simp add: split chunk_measure_def)
  have tpos: "taken \<noteq> [] \<Longrightarrow> 0 < chunk_measure taken"
    by (simp add: chunk_measure_def)
  show ?thesis
  proof (cases rest)
    case Nil
    have "snd (next_line w started chunks) = []"
      using Nil by (simp add: next_line_def Let_def chunks1_def [symmetric] rest_def [symmetric])
    moreover have "0 < chunk_measure chunks" using assms by (simp add: chunk_measure_def)
    ultimately show ?thesis by (simp add: chunk_measure_def)
  next
    case (Cons c cs)
    show ?thesis
    proof (cases "w < length c")
      case False
      have s: "snd (next_line w started chunks) = rest"
        using Cons False
        by (simp add: next_line_def Let_def chunks1_def [symmetric] rest_def [symmetric])
      have "taken \<noteq> []"
      proof
        assume e: "taken = []"
        then have "chunks1 = c # cs" using split Cons by simp
        with fill_line_none [of w 0 chunks1] e have "w < length c" by (simp add: taken_def)
        with False show False by simp
      qed
      with tpos m c1 s show ?thesis by simp
    next
      case True
      have s: "snd (next_line w started chunks) = snd (handle_long_word w (length (concat taken)) c) # cs"
        using Cons True
        by (simp add: next_line_def Let_def chunks1_def [symmetric] rest_def [symmetric]
            taken_def [symmetric])
      show ?thesis
      proof (cases "taken = []")
        case False
        have "chunk_measure (snd (next_line w started chunks)) \<le> chunk_measure rest"
          using handle_long_word_le [of w "length (concat taken)" c]
          by (simp add: s Cons chunk_measure_def)
        with tpos [OF False] m c1 show ?thesis by simp
      next
        case e: True
        have "c \<noteq> []" using True by auto
        then have "length (snd (handle_long_word w (length (concat taken)) c)) < length c"
          using e by (intro handle_long_word_cut) simp_all
        then have "chunk_measure (snd (next_line w started chunks)) < chunk_measure rest"
          by (simp add: s Cons chunk_measure_def)
        with m c1 show ?thesis by simp
      qed
    qed
  qed
qed

function wrap_chunks :: "nat \<Rightarrow> bool \<Rightarrow> ustr list \<Rightarrow> ustr list" where
  "wrap_chunks w started chunks =
     (if chunks = [] then []
      else (case fst (next_line w started chunks) of
              None \<Rightarrow> wrap_chunks w started (snd (next_line w started chunks))
            | Some line \<Rightarrow> line # wrap_chunks w True (snd (next_line w started chunks))))"
  by pat_completeness auto
termination
  by (relation "measure (\<lambda>(w, started, chunks). chunk_measure chunks)")
     (auto simp: next_line_decreases)

text \<open>
  \<^verbatim>\<open>textwrap.wrap(text, width)\<close>. \<open>split\<close> is \<^verbatim>\<open>TextWrapper._split\<close>, the split of the
  munged text at the regular expression \<^verbatim>\<open>wordsep_re\<close>; the empty chunks are dropped.
\<close>

definition textwrap_wrap :: "(ustr \<Rightarrow> ustr list) \<Rightarrow> nat \<Rightarrow> ustr \<Rightarrow> ustr list" where
  "textwrap_wrap split w text =
     wrap_chunks w False (filter (\<lambda>c. c \<noteq> []) (split (munge_whitespace text)))"

definition wrap_long :: "(ustr \<Rightarrow> ustr list) \<Rightarrow> ustr \<Rightarrow> ustr" where
  "wrap_long split text = py_join [10] (textwrap_wrap split 60 text)"

text \<open>
  What \<^verbatim>\<open>wordsep_re\<close> does on a text without hyphens: the chunks are the maximal runs of
  whitespace and the maximal runs of other characters.
\<close>

fun split_runs :: "ustr \<Rightarrow> ustr list" where
  "split_runs [] = []"
| "split_runs (c # cs) =
     (case split_runs cs of
        [] \<Rightarrow> [[c]]
      | [] # rest \<Rightarrow> [c] # rest
      | (d # ds) # rest \<Rightarrow>
          if is_ws c = is_ws d then (c # d # ds) # rest else [c] # (d # ds) # rest)"

text \<open>The characters of a text that are not whitespace, in order.\<close>

definition ink :: "ustr \<Rightarrow> ustr" where
  "ink s = filter (\<lambda>c. \<not> is_space c) s"

text \<open>The description of a card: \<^verbatim>\<open>raw\<close>, \<^verbatim>\<open>full = strip_html(raw)\<close> and
  \<^verbatim>\<open>descr = wrap_long(full[:1200]) + ("..." if len(full) > 1200 else "")\<close>, the mark being
  the single character U+2026.\<close>

definition or_empty :: "ustr option \<Rightarrow> ustr" where
  "or_empty x = (case x of None \<Rightarrow> [] | Some s \<Rightarrow> s)"

definition raw_description :: "vacancy \<Rightarrow> ustr" where
  "raw_description v =
     (case v_snippet v of
        SnippetDict resp req \<Rightarrow> py_strip (or_empty resp @ [10] @ or_empty req)
      | SnippetText s \<Rightarrow> (if s \<noteq> [] then s else or_empty (v_description v))
      | SnippetNone \<Rightarrow> or_empty (v_description v))"

definition format_descr :: "(ustr \<Rightarrow> ustr list) \<Rightarrow> vacancy \<Rightarrow> ustr" where
  "format_descr split v =
     (let full = strip_html (raw_description v)
      in wrap_long split (take 1200 full) @ (if 1200 < length full then [ellipsis] else []))"

definition no_company_name :: ustr where
  "no_company_name = [1041, 1077, 1079, 32, 1085, 1072, 1079, 1074, 1072, 1085, 1080, 1103]"

definition open_on_hh :: ustr where
  "open_on_hh = [1054, 1090, 1082, 1088, 1099, 1090, 1100, 32, 1085, 1072, 32] @ ascii ''hh.ru''"

text \<open>
  \<^verbatim>\<open>format_vacancy\<close> returns the caption and the logo URL. \<^verbatim>\<open>v.get("employer", {})\<close> is
  None for an employer that is null, and \<^verbatim>\<open>.get\<close> on it raises AttributeError; so does a
  null \<^verbatim>\<open>logo_urls\<close>.
\<close>

definition format_vacancy :: "(ustr \<Rightarrow> ustr list) \<Rightarrow> vacancy \<Rightarrow> error + (ustr \<times> ustr option)" where
  "format_vacancy split v =
     (case v_employer v of
        EmployerNull \<Rightarrow> Inl AttributeError
      | Employer _ LogosNull \<Rightarrow> Inl AttributeError
      | emp \<Rightarrow>
          (let company = (case emp of Employer (Some n) _ \<Rightarrow> n | _ \<Rightarrow> no_company_name);
               logo = (case emp of Employer _ (Logos l) \<Rightarrow> l | _ \<Rightarrow> None);
               caption =
                 [128188, 32] @ ascii ''<b>'' @ v_name v @ ascii ''</b>'' @ [10] @
                 [10, 127970, 32] @ ascii ''<i>'' @ company @ ascii ''</i>'' @ [10] @
                 [10, 128176, 32, 1047, 1055, 58, 32] @ format_salary (v_salary v) @ [10] @
                 [10] @ format_descr split v @ [10] @
                 [10] @ ascii ''<a href='' @ [39] @ v_url v @ [39, 62] @ open_on_hh @ ascii ''</a>''
           in Inr (caption, logo)))"

text \<open>A value that the comma-joined text stores as it is: it holds no comma and no
  whitespace at either end.\<close>

definition clean :: "ustr \<Rightarrow> bool" where
  "clean x = (44 \<notin> set x \<and> py_strip x = x)"

section \<open>The process state and the services around it\<close>

text \<open>
  An entry of \<^verbatim>\<open>jobs_json\<close>: a vacancy dict or some other JSON value. The store is read
  and written one statement at a time, each statement awaited, and no transaction spans two
  of them. A handler is given as the action that it is when no other handler runs before
  it ends; \<open>overlapped\<close> below puts another handler between two of its statements.
\<close>

datatype job_entry = JobDict vacancy | JobOther

record pending_row =
  p_user :: int
  p_jobs :: "job_entry list"
  p_cursor :: int

record user_row =
  u_chat :: int
  u_settings_msg :: "int option"

datatype keyboard =
    NoKeyboard
  | JobKeyboard ustr
  | MainMenuKeyboard
  | SettingsKeyboard
  | OAuthKeyboard int

text \<open>
  What leaves the process: the calls of the Telegram client, of the job board, of the
  language model, and the warnings logged. \<open>trace\<close> lists them in order, whether the
  call succeeded or not.
\<close>

datatype event =
    AnswerCallback ustr "ustr option"
  | SendMessage int ustr keyboard
  | SendPhoto int ustr ustr keyboard
  | EditReplyMarkup int int keyboard
  | EditMessageText int int ustr keyboard
  | DeleteMessage int int
  | LlmCreate snippet_field ustr
  | HhSearch "ustr option" ustr int
  | HhResumeText "ustr option" ustr
  | HhRespond "ustr option" ustr ustr ustr
  | LogWarning ustr

datatype service = Telegram | Llm | HhSearchApi | HhResumeApi | HhRespondApi

text \<open>
  The tables \<^verbatim>\<open>users\<close>, \<^verbatim>\<open>user_tokens\<close> and \<^verbatim>\<open>pending_jobs\<close> beside \<^verbatim>\<open>user_settings\<close>, the
  caches \<^verbatim>\<open>app.state.jobs_cache\<close> and \<^verbatim>\<open>app.state.cursor[uid]["jobs"]\<close>, the trace, and
  the number of calls made to each service so far. The by-id cache, which only the
  \<^verbatim>\<open>job_apply\<close> branch reads, is left out. The column \<^verbatim>\<open>settings_msg_id\<close> is taken to exist.
\<close>

record world = store +
  users :: "user_row list"
  user_tokens :: "(int \<times> ustr) list"
  pending_jobs :: "pending_row list"
  jobs_cache :: "(int \<times> vacancy list) list"
  jobs_cursor :: "(int \<times> int) list"
  trace :: "event list"
  calls :: "service \<Rightarrow> nat"

text \<open>A raw item of the job board's search result, as \<^verbatim>\<open>run_jobs\<close> reads it.\<close>

datatype raw_snippet = RawSnippetMissing | RawSnippetNull | RawSnippet "ustr option" "ustr option"

record raw_vacancy =
  rv_id :: ustr
  rv_name :: ustr
  rv_alternate_url :: ustr
  rv_salary :: salary_field
  rv_employer :: employer_field
  rv_snippet :: raw_snippet

text \<open>A handler step: it reads and changes the world and returns or raises.\<close>

type_synonym 'a action = "world \<Rightarrow> (error + 'a) \<times> world"

datatype tg_outcome = TgOk | TgBad bad_request | TgFailure

text \<open>
  The services' answers, by the number of the call: the \<open>n\<close>-th call of a service
  gets the \<open>n\<close>-th answer, whatever it asks. \<open>None\<close> and \<open>False\<close> stand for a call that
  raises. \<open>wordsep_split\<close> is the split at \<^verbatim>\<open>wordsep_re\<close> of \<^verbatim>\<open>textwrap\<close>, and \<open>bot_token\<close>
  the configured \<^verbatim>\<open>TG_BOT_TOKEN\<close>.

  The \<^verbatim>\<open>start_auto\<close> branch calls \<^verbatim>\<open>fetch_vacancies(uid)\<close>, a name that no file of the
  repository defines or imports. \<open>fetch_vacancies\<close> is \<open>None\<close> for the repository as it
  is, where the call raises NameError, and \<open>Some f\<close> for a definition supplied from
  outside.
\<close>

record env =
  tg_outcome_of :: "nat \<Rightarrow> tg_outcome"
  tg_message_id :: "nat \<Rightarrow> int"
  llm_text :: "nat \<Rightarrow> ustr option"
  hh_items :: "nat \<Rightarrow> raw_vacancy list option"
  hh_resume :: "nat \<Rightarrow> ustr option"
  hh_respond_ok :: "nat \<Rightarrow> bool"
  wordsep_split :: "ustr \<Rightarrow> ustr list"
  bot_token :: ustr
  fetch_vacancies :: "(int \<Rightarrow> vacancy list action) option"

definition ret :: "'a \<Rightarrow> 'a action" where
  "ret x = (\<lambda>w. (Inr x, w))"

definition throw :: "error \<Rightarrow> 'a action" where
  "throw e = (\<lambda>w. (Inl e, w))"

definition and_then :: "'a action \<Rightarrow> ('a \<Rightarrow> 'b action) \<Rightarrow> 'b action" where
  "and_then m f = (\<lambda>w. case m w of (Inl e, w') \<Rightarrow> (Inl e, w') | (Inr x, w') \<Rightarrow> f x w')"

definition seq :: "'a action \<Rightarrow> 'b action \<Rightarrow> 'b action" where
  "seq m n = and_then m (\<lambda>_. n)"

definition catch :: "'a action \<Rightarrow> (error \<Rightarrow> 'a action) \<Rightarrow> 'a action" where
  "catch m h = (\<lambda>w. case m w of (Inl e, w') \<Rightarrow> h e w' | (Inr x, w') \<Rightarrow> (Inr x, w'))"

text \<open>\<^verbatim>\<open>try: ... finally: ...\<close> with a cleanup that does not raise.\<close>

definition finally_do :: "'a action \<Rightarrow> unit action \<Rightarrow> 'a action" where
  "finally_do m c =
     (\<lambda>w. case m w of (r, w') \<Rightarrow> (case c w' of (Inl e, w'') \<Rightarrow> (Inl e, w'') | (Inr _, w'') \<Rightarrow> (r, w'')))"

definition modify :: "(world \<Rightarrow> world) \<Rightarrow> unit action" where
  "modify f = (\<lambda>w. (Inr (), f w))"

definition reads :: "(world \<Rightarrow> 'a) \<Rightarrow> 'a action" where
  "reads f = (\<lambda>w. (Inr (f w), w))"

text \<open>A call of a service: it is recorded, and its number selects the answer.\<close>

definition external :: "service \<Rightarrow> event \<Rightarrow> nat action" where
  "external svc ev =
     (\<lambda>w. (Inr (calls w svc),
            w\<lparr>trace := trace w @ [ev], calls := (calls w)(svc := Suc (calls w svc))\<rparr>))"

definition telegram :: "env \<Rightarrow> event \<Rightarrow> nat action" where
  "telegram env ev =
     and_then (external Telegram ev) (\<lambda>n.
       case tg_outcome_of env n of
         TgOk \<Rightarrow> ret n
       | TgBad b \<Rightarrow> throw (TelegramBadRequest b)
       | TgFailure \<Rightarrow> throw TelegramFailure)"

definition log_warning :: "ustr \<Rightarrow> unit action" where
  "log_warning vid = modify (\<lambda>w. w\<lparr>trace := trace w @ [LogWarning vid]\<rparr>)"

text \<open>\<^verbatim>\<open>get_user_token\<close>, \<^verbatim>\<open>set_pending\<close> and \<^verbatim>\<open>get_pending\<close>.\<close>

definition get_user_token :: "int \<Rightarrow> world \<Rightarrow> ustr option" where
  "get_user_token uid w = map_of (user_tokens w) uid"

definition pending_key :: ustr where
  "pending_key = ascii ''pending''"

definition set_pending :: "int \<Rightarrow> ustr option \<Rightarrow> 'a store_scheme \<Rightarrow> 'a store_scheme" where
  "set_pending uid field st =
     st\<lparr>user_settings :=
          insert_or_replace \<lparr>s_user = uid, s_key = pending_key, s_value = field\<rparr> (user_settings st)\<rparr>"

definition get_pending :: "int \<Rightarrow> 'a store_scheme \<Rightarrow> ustr option" where
  "get_pending uid st = select_value uid pending_key (user_settings st)"

text \<open>\<^verbatim>\<open>INSERT OR IGNORE INTO users(chat_id) VALUES (?)\<close>.\<close>

definition ensure_user :: "int \<Rightarrow> world \<Rightarrow> world" where
  "ensure_user uid w =
     (if uid \<in> set (map u_chat (users w)) then w
      else w\<lparr>users := users w @ [\<lparr>u_chat = uid, u_settings_msg = None\<rparr>]\<rparr>)"

definition get_settings_msg_id :: "int \<Rightarrow> world \<Rightarrow> int option" where
  "get_settings_msg_id uid w =
     (case find (\<lambda>r. u_chat r = uid) (users w) of None \<Rightarrow> None | Some r \<Rightarrow> u_settings_msg r)"

definition set_settings_msg_id :: "int \<Rightarrow> int \<Rightarrow> world \<Rightarrow> world" where
  "set_settings_msg_id uid msg_id w =
     w\<lparr>users := map (\<lambda>r. if u_chat r = uid then r\<lparr>u_settings_msg := Some msg_id\<rparr> else r) (users w)\<rparr>"

text \<open>The edits that swallow "message is not modified", and the best-effort delete.\<close>

definition safe_edit_markup :: "env \<Rightarrow> int \<Rightarrow> int \<Rightarrow> keyboard \<Rightarrow> unit action" where
  "safe_edit_markup env chat msg kb =
     catch (seq (telegram env (EditReplyMarkup chat msg kb)) (ret ()))
       (\<lambda>e. if e = TelegramBadRequest NotModified then ret () else throw e)"

definition safe_edit_text_by_id :: "env \<Rightarrow> int \<Rightarrow> int option \<Rightarrow> ustr \<Rightarrow> keyboard \<Rightarrow> unit action" where
  "safe_edit_text_by_id env uid msg_id text kb =
     (case msg_id of
        None \<Rightarrow>
          and_then (telegram env (SendMessage uid text kb)) (\<lambda>n.
            modify (set_settings_msg_id uid (tg_message_id env n)))
      | Some m \<Rightarrow>
          catch (seq (telegram env (EditMessageText uid m text kb)) (ret ()))
            (\<lambda>e. if e = TelegramBadRequest EditNotFound then
                    and_then (telegram env (SendMessage uid text kb)) (\<lambda>n.
                      modify (set_settings_msg_id uid (tg_message_id env n)))
                  else if e = TelegramBadRequest NotModified then ret ()
                  else throw e))"

definition safe_delete :: "env \<Rightarrow> int \<Rightarrow> int \<Rightarrow> unit action" where
  "safe_delete env chat msg =
     catch (seq (telegram env (DeleteMessage chat msg)) (ret ())) (\<lambda>e. ret ())"

section \<open>The texts the bot sends\<close>

definition msg_no_vacancies :: ustr where
  "msg_no_vacancies =
     [1055, 1086, 32, 1074, 1072, 1096, 1080, 1084, 32, 1092, 1080, 1083, 1100, 1090,
      1088, 1072, 1084, 32, 1074, 1072, 1082, 1072, 1085, 1089, 1080, 1081, 32, 1085,
      1077, 32, 1085, 1072, 1081, 1076, 1077, 1085, 1086, 32, 128533]"

definition msg_report_prefix :: ustr where
  "msg_report_prefix =
     [128640, 32, 1040, 1074, 1090, 1086, 1086, 1090, 1082, 1083, 1080, 1082, 1080, 32,
      1086, 1090, 1087, 1088, 1072, 1074, 1083, 1077, 1085, 1099, 58, 32]"

definition msg_exhausted :: ustr where
  "msg_exhausted =
     [1042, 1072, 1082, 1072, 1085, 1089, 1080, 1080, 32, 1079, 1072, 1082, 1086, 1085,
      1095, 1080, 1083, 1080, 1089, 1100, 32, 9989]"

definition msg_list_empty :: ustr where
  "msg_list_empty =
     [1057, 1087, 1080, 1089, 1086, 1082, 32, 1087, 1091, 1089, 1090, 46]"

definition msg_your_filters :: ustr where
  "msg_your_filters =
     [1042, 1072, 1096, 1080, 32, 1092, 1080, 1083, 1100, 1090, 1088, 1099, 58]"

definition msg_main_menu :: ustr where
  "msg_main_menu =
     [128204, 32, 1043, 1083, 1072, 1074, 1085, 1086, 1077, 32, 1084, 1077, 1085, 1102,
      58]"

definition msg_no_description :: ustr where
  "msg_no_description =
     [1085, 1077, 1090, 32, 1086, 1087, 1080, 1089, 1072, 1085, 1080, 1103]"

definition msg_intro :: ustr where
  "msg_intro =
     [60, 98, 62, 128075, 32, 1044, 1086, 1073, 1088, 1086, 32, 1087, 1086, 1078, 1072,
      1083, 1086, 1074, 1072, 1090, 1100, 33, 60, 47, 98, 62, 10, 10, 1069, 1090, 1086,
      1090, 32, 1073, 1086, 1090, 32, 1072, 1074, 1090, 1086, 1084, 1072, 1090, 1080,
      1095, 1077, 1089, 1082, 1080, 32, 1086, 1090, 1082, 1083, 1080, 1082, 1072, 1077,
      1090, 1089, 1103, 32, 1085, 1072, 32, 1087, 1086, 1076, 1093, 1086, 1076, 1103,
      1097, 1080, 1077, 32, 1074, 1072, 1082, 1072, 1085, 1089, 1080, 1080, 32, 104,
      104, 46, 114, 117, 32, 1087, 1086, 32, 1074, 1072, 1096, 1080, 1084, 32, 1092,
      1080, 1083, 1100, 1090, 1088, 1072, 1084, 46, 32, 1053, 1072, 1089, 1090, 1088,
      1086, 1081, 1090, 1077, 32, 1088, 1077, 1075, 1080, 1086, 1085, 44, 32, 1079,
      1072, 1088, 1087, 1083, 1072, 1090, 1091, 44, 32, 1075, 1088, 1072, 1092, 1080,
      1082, 32, 1080, 32, 1074, 1099, 1073, 1077, 1088, 1080, 1090, 1077, 32, 1088,
      1077, 1079, 1102, 1084, 1077, 32, 8212, 32, 1086, 1089, 1090, 1072, 1083, 1100,
      1085, 1086, 1077, 32, 1103, 32, 1089, 1076, 1077, 1083, 1072, 1102, 32, 1089,
      1072, 1084, 46]"

definition msg_step_one :: ustr where
  "msg_step_one =
     [10, 10, 60, 98, 62, 1064, 1072, 1075, 32, 49, 46, 60, 47, 98, 62, 32, 1053, 1072,
      1078, 1084, 1080, 1090, 1077, 32, 1082, 1085, 1086, 1087, 1082, 1091, 32, 1085,
      1080, 1078, 1077, 32, 1080, 32, 1076, 1072, 1081, 1090, 1077, 32, 1073, 1086,
      1090, 1091, 32, 1076, 1086, 1089, 1090, 1091, 1087, 32, 1082, 32, 1074, 1072,
      1096, 1077, 1084, 1091, 32, 1072, 1082, 1082, 1072, 1091, 1085, 1090, 1091, 32,
      104, 104, 46, 114, 117, 46]"

definition msg_authorized :: ustr where
  "msg_authorized =
     [9989, 32, 1042, 1099, 32, 1091, 1078, 1077, 32, 1072, 1074, 1090, 1086, 1088,
      1080, 1079, 1086, 1074, 1072, 1085, 1099, 46, 10, 10]"

definition report_text :: "nat \<Rightarrow> ustr" where
  "report_text sent = msg_report_prefix @ py_str_int (int sent) @ ascii ''/20''"

section \<open>Automatic applications\<close>

definition resume_key :: ustr where "resume_key = ascii ''resume''"

definition keyword_key :: ustr where "keyword_key = ascii ''keyword''"

definition region_key :: ustr where "region_key = ascii ''region''"

definition salary_key :: ustr where "salary_key = ascii ''salary''"

text \<open>\<^verbatim>\<open>hh_api.HHApiClient(token) if token else hh_api.HHApiClient()\<close>.\<close>

definition client_token :: "ustr option \<Rightarrow> ustr option" where
  "client_token t = (case t of None \<Rightarrow> None | Some x \<Rightarrow> if x = [] then None else Some x)"

text \<open>\<^verbatim>\<open>generate_cover_letter\<close>: one request to the language model; the answer is stripped.\<close>

definition generate_cover_letter :: "env \<Rightarrow> snippet_field \<Rightarrow> ustr \<Rightarrow> ustr action" where
  "generate_cover_letter env vacancy_text resume =
     and_then (external Llm (LlmCreate vacancy_text resume)) (\<lambda>n.
       case llm_text env n of None \<Rightarrow> throw UpstreamError | Some t \<Rightarrow> ret (py_strip t))"

definition get_resume_summary :: "env \<Rightarrow> int \<Rightarrow> ustr action" where
  "get_resume_summary env uid =
     and_then (reads (get_user_setting uid resume_key)) (\<lambda>rid.
       if or_empty rid = [] then ret []
       else
         and_then (reads (get_user_token uid)) (\<lambda>token.
         and_then (external HhResumeApi (HhResumeText (client_token token) (or_empty rid))) (\<lambda>n.
           case hh_resume env n of None \<Rightarrow> throw UpstreamError | Some txt \<Rightarrow> ret (take 1200 txt))))"

definition send_apply :: "env \<Rightarrow> int \<Rightarrow> ustr \<Rightarrow> ustr \<Rightarrow> unit action" where
  "send_apply env uid vacancy_id cover_letter =
     and_then (reads (get_user_token uid)) (\<lambda>token.
     and_then (reads (get_user_setting uid resume_key)) (\<lambda>resume_id.
       if or_empty resume_id = [] then throw RuntimeError
       else
         and_then (external HhRespondApi
                     (HhRespond (client_token token) vacancy_id (or_empty resume_id) cover_letter))
           (\<lambda>n. if hh_respond_ok env n then ret () else throw UpstreamError)))"

text \<open>\<^verbatim>\<open>v["snippet"] or v["name"]\<close>, the first argument of \<^verbatim>\<open>generate_cover_letter\<close>.\<close>

definition vacancy_arg :: "vacancy \<Rightarrow> snippet_field" where
  "vacancy_arg v =
     (case v_snippet v of
        SnippetNone \<Rightarrow> SnippetText (v_name v)
      | SnippetText s \<Rightarrow> SnippetText (if s \<noteq> [] then s else v_name v)
      | SnippetDict r q \<Rightarrow> SnippetDict r q)"

text \<open>
  The loop of the \<^verbatim>\<open>start_auto\<close> branch. The letter is generated outside the
  \<^verbatim>\<open>try\<close>: a failure there ends the loop and the handler. The \<^verbatim>\<open>try\<close> holds
  \<^verbatim>\<open>send_apply\<close> and \<^verbatim>\<open>sent += 1\<close>; \<^verbatim>\<open>except Exception\<close> logs a warning.
\<close>

fun auto_loop :: "env \<Rightarrow> int \<Rightarrow> ustr \<Rightarrow> vacancy list \<Rightarrow> nat \<Rightarrow> nat action" where
  "auto_loop env uid resume [] sent w = (Inr sent, w)"
| "auto_loop env uid resume (v # vs) sent w =
     (case generate_cover_letter env (vacancy_arg v) resume w of
        (Inl e, w1) \<Rightarrow> (Inl e, w1)
      | (Inr cover, w1) \<Rightarrow>
          (case send_apply env uid (v_id v) cover w1 of
             (Inr _, w2) \<Rightarrow> auto_loop env uid resume vs (sent + 1) w2
           | (Inl e, w2) \<Rightarrow> auto_loop env uid resume vs sent (snd (log_warning (v_id v) w2))))"

text \<open>The branch after the fetch: the resume summary, the loop over \<^verbatim>\<open>vacancies[:20]\<close>
  and the report.\<close>

definition auto_apply :: "env \<Rightarrow> int \<Rightarrow> vacancy list \<Rightarrow> unit action" where
  "auto_apply env uid vacancies =
     and_then (get_resume_summary env uid) (\<lambda>resume.
     and_then (auto_loop env uid resume (take 20 vacancies) 0) (\<lambda>sent.
     seq (telegram env (SendMessage uid (report_text sent) NoKeyboard)) (ret ())))"

datatype response = OkTrue | Null

definition start_auto :: "env \<Rightarrow> int \<Rightarrow> ustr \<Rightarrow> response action" where
  "start_auto env uid call_id =
     seq (telegram env (AnswerCallback call_id None))
       (case fetch_vacancies env of
          None \<Rightarrow> throw NameError
        | Some fetch \<Rightarrow>
            and_then (fetch uid) (\<lambda>vacancies.
            seq (auto_apply env uid vacancies) (ret OkTrue)))"

text \<open>
  What the loop is expected to leave in the trace when every letter is generated: for each
  posting one request to the language model and one application, and a warning after an
  application that failed. \<open>l\<close> and \<open>r\<close> number the next call of the language model and
  of the application service.
\<close>

fun loop_events :: "env \<Rightarrow> ustr option \<Rightarrow> ustr \<Rightarrow> ustr \<Rightarrow> nat \<Rightarrow> nat \<Rightarrow> vacancy list \<Rightarrow> event list" where
  "loop_events env tok rid resume l r [] = []"
| "loop_events env tok rid resume l r (v # vs) =
     [LlmCreate (vacancy_arg v) resume,
      HhRespond tok (v_id v) rid (py_strip (or_empty (llm_text env l)))] @
     (if hh_respond_ok env r then [] else [LogWarning (v_id v)]) @
     loop_events env tok rid resume (Suc l) (Suc r) vs"

text \<open>The requests for a letter, the applications and the warnings in a trace.\<close>

fun generations :: "event list \<Rightarrow> snippet_field list" where
  "generations [] = []"
| "generations (LlmCreate a _ # es) = a # generations es"
| "generations (_ # es) = generations es"

fun submissions :: "event list \<Rightarrow> ustr list" where
  "submissions [] = []"
| "submissions (HhRespond _ vid _ _ # es) = vid # submissions es"
| "submissions (_ # es) = submissions es"

fun warnings :: "event list \<Rightarrow> ustr list" where
  "warnings [] = []"
| "warnings (LogWarning vid # es) = vid # warnings es"
| "warnings (_ # es) = warnings es"

text \<open>Of the next \<open>m\<close> applications, counted from call \<open>r\<close>: how many succeed, how many
  fail.\<close>

definition succeeded :: "env \<Rightarrow> nat \<Rightarrow> nat \<Rightarrow> nat" where
  "succeeded env r m = length (filter (\<lambda>i. hh_respond_ok env (r + i)) [0..<m])"

definition failed :: "env \<Rightarrow> nat \<Rightarrow> nat \<Rightarrow> nat" where
  "failed env r m = length (filter (\<lambda>i. \<not> hh_respond_ok env (r + i)) [0..<m])"

text \<open>A concrete run: every service answers, the applications numbered 2, 5 and 11 fail;
  the user has chosen a resume; the postings differ in their ids.\<close>

definition env1 :: env where
  "env1 = \<lparr>tg_outcome_of = (\<lambda>n. TgOk), tg_message_id = (\<lambda>n. int n),
           llm_text = (\<lambda>n. Some (ascii ''Hello '')), hh_items = (\<lambda>n. None),
           hh_resume = (\<lambda>n. Some (ascii ''Engineer'')),
           hh_respond_ok = (\<lambda>n. n \<noteq> 2 \<and> n \<noteq> 5 \<and> n \<noteq> 11),
           wordsep_split = split_runs, bot_token = ascii ''T'', fetch_vacancies = None\<rparr>"

definition posting :: "nat \<Rightarrow> vacancy" where
  "posting i = \<lparr>v_id = digits i, v_name = ascii ''Job'', v_url = ascii ''u'',
               v_salary = SalaryNoDict, v_employer = EmployerNull,
               v_snippet = SnippetText (ascii ''work''), v_description = None\<rparr>"

definition world1 :: world where
  "world1 = \<lparr>user_settings = [\<lparr>s_user = 1, s_key = resume_key, s_value = Some (ascii ''r1'')\<rparr>],
             users = [], user_tokens = [], pending_jobs = [], jobs_cache = [], jobs_cursor = [],
             trace = [], calls = (\<lambda>s. 0)\<rparr>"

section \<open>Browsing vacancies and the webhook\<close>

text \<open>
  \<^verbatim>\<open>run_jobs\<close>, the flow behind \<^verbatim>\<open>/jobs\<close> and the \<^verbatim>\<open>start_manual\<close> button. One raw item
  becomes one vacancy dict; \<^verbatim>\<open>v.get("snippet", {}).get(...)\<close> raises AttributeError on a null
  snippet. A missing salary or employer is stored as null.
\<close>

definition normalize :: "raw_vacancy \<Rightarrow> error + vacancy" where
  "normalize rv =
     (case rv_snippet rv of
        RawSnippetNull \<Rightarrow> Inl AttributeError
      | sn \<Rightarrow>
          (let resp_txt = (case sn of RawSnippet r _ \<Rightarrow> or_empty r | _ \<Rightarrow> []);
               req_txt = (case sn of RawSnippet _ q \<Rightarrow> or_empty q | _ \<Rightarrow> []);
               stripped = strip_html (py_strip (resp_txt @ [10] @ req_txt));
               full_descr = (if stripped \<noteq> [] then stripped else msg_no_description)
           in Inr \<lparr>v_id = rv_id rv, v_name = rv_name rv, v_url = rv_alternate_url rv,
                   v_salary = (case rv_salary rv of SalaryMissing \<Rightarrow> SalaryNoDict | x \<Rightarrow> x),
                   v_employer = (case rv_employer rv of EmployerMissing \<Rightarrow> EmployerNull | x \<Rightarrow> x),
                   v_snippet = SnippetText (if 1200 < length full_descr
                                            then take 1200 full_descr @ [ellipsis]
                                            else full_descr),
                   v_description = None\<rparr>))"

fun normalize_all :: "raw_vacancy list \<Rightarrow> error + vacancy list" where
  "normalize_all [] = Inr []"
| "normalize_all (rv # rvs) =
     (case normalize rv of
        Inl e \<Rightarrow> Inl e
      | Inr v \<Rightarrow> (case normalize_all rvs of Inl e \<Rightarrow> Inl e | Inr vs \<Rightarrow> Inr (v # vs)))"

text \<open>
  \<^verbatim>\<open>INSERT INTO pending_jobs ... ON CONFLICT(tg_user) DO UPDATE SET jobs_json = ..., cursor = 0\<close>,
  \<^verbatim>\<open>UPDATE pending_jobs SET cursor = ? WHERE tg_user = ?\<close> and
  \<^verbatim>\<open>DELETE FROM pending_jobs WHERE tg_user = ?\<close>.
\<close>

definition upsert_pending :: "int \<Rightarrow> job_entry list \<Rightarrow> pending_row list \<Rightarrow> pending_row list" where
  "upsert_pending uid jobs rows =
     (if uid \<in> set (map p_user rows)
      then map (\<lambda>r. if p_user r = uid then r\<lparr>p_jobs := jobs, p_cursor := 0\<rparr> else r) rows
      else rows @ [\<lparr>p_user = uid, p_jobs = jobs, p_cursor = 0\<rparr>])"

definition update_cursor :: "int \<Rightarrow> int \<Rightarrow> pending_row list \<Rightarrow> pending_row list" where
  "update_cursor uid c rows = map (\<lambda>r. if p_user r = uid then r\<lparr>p_cursor := c\<rparr> else r) rows"

definition delete_pending :: "int \<Rightarrow> pending_row list \<Rightarrow> pending_row list" where
  "delete_pending uid rows = filter (\<lambda>r. p_user r \<noteq> uid) rows"

definition cache_put :: "int \<Rightarrow> 'a \<Rightarrow> (int \<times> 'a) list \<Rightarrow> (int \<times> 'a) list" where
  "cache_put uid x cache = (uid, x) # filter (\<lambda>p. fst p \<noteq> uid) cache"

text \<open>Sending a card: the caption and the keyboard of the vacancy, as a photo when the
  employer has a logo.\<close>

definition send_card :: "env \<Rightarrow> int \<Rightarrow> vacancy \<Rightarrow> ustr \<Rightarrow> ustr option \<Rightarrow> unit action" where
  "send_card env uid v caption logo =
     (if or_empty logo \<noteq> []
      then seq (telegram env (SendPhoto uid (or_empty logo) caption (JobKeyboard (v_id v)))) (ret ())
      else seq (telegram env (SendMessage uid caption (JobKeyboard (v_id v)))) (ret ()))"

definition run_jobs :: "env \<Rightarrow> int \<Rightarrow> unit action" where
  "run_jobs env uid =
     and_then (reads (get_user_token uid)) (\<lambda>token.
     and_then (next_jobs_page uid) (\<lambda>page.
     and_then (reads (get_user_setting uid keyword_key)) (\<lambda>keyword.
     and_then (external HhSearchApi (HhSearch (client_token token) (or_empty keyword) page)) (\<lambda>n.
       case hh_items env n of
         None \<Rightarrow> throw UpstreamError
       | Some raw_vacs \<Rightarrow>
           if raw_vacs = [] then
             seq (telegram env (SendMessage uid msg_no_vacancies NoKeyboard)) (ret ())
           else
             (case normalize_all raw_vacs of
                Inl e \<Rightarrow> throw e
              | Inr vacancies \<Rightarrow>
                  seq (modify (\<lambda>w. w\<lparr>pending_jobs :=
                         upsert_pending uid (map JobDict vacancies) (pending_jobs w)\<rparr>))
                  (seq (modify (\<lambda>w. w\<lparr>jobs_cache := cache_put uid vacancies (jobs_cache w)\<rparr>))
                  (if list_ex (\<lambda>v. py_int (v_id v) = None) vacancies then throw ValueError
                   else
                     seq (modify (\<lambda>w. w\<lparr>jobs_cursor := cache_put uid 0 (jobs_cursor w)\<rparr>))
                     (case vacancies of
                        [] \<Rightarrow> throw IndexError
                      | first # _ \<Rightarrow>
                          (case format_vacancy (wordsep_split env) first of
                             Inl e \<Rightarrow> throw e
                           | Inr (caption, logo) \<Rightarrow> send_card env uid first caption logo)))))))))"

text \<open>
  \<^verbatim>\<open>jobs[cursor]\<close> with Python's indexing, and the loop
  \<^verbatim>\<open>while cursor < len(jobs) and not isinstance(jobs[cursor], dict): cursor += 1\<close>.
\<close>

definition py_index :: "'a list \<Rightarrow> int \<Rightarrow> 'a option" where
  "py_index xs i =
     (let n = int (length xs); j = (if i < 0 then n + i else i)
      in if 0 \<le> j \<and> j < n then Some (xs ! nat j) else None)"

function skip_non_dict :: "job_entry list \<Rightarrow> int \<Rightarrow> error + int" where
  "skip_non_dict jobs c =
     (if c < int (length jobs) then
        (case py_index jobs c of
           None \<Rightarrow> Inl IndexError
         | Some (JobDict _) \<Rightarrow> Inr c
         | Some JobOther \<Rightarrow> skip_non_dict jobs (c + 1))
      else Inr c)"
  by pat_completeness auto

termination
  by (relation "measure (\<lambda>(jobs, c). nat (int (length jobs) - c))") auto

text \<open>The end of the list in the \<^verbatim>\<open>job_next\<close> branch: the answer, the keyboard taken off
  the card, then the row deleted.\<close>

definition jobs_exhausted :: "env \<Rightarrow> int \<Rightarrow> ustr \<Rightarrow> int \<Rightarrow> response action" where
  "jobs_exhausted env uid call_id msg_id =
     seq (telegram env (AnswerCallback call_id (Some msg_exhausted)))
     (seq (safe_edit_markup env uid msg_id NoKeyboard)
     (seq (modify (\<lambda>w. w\<lparr>pending_jobs := delete_pending uid (pending_jobs w)\<rparr>))
     (ret OkTrue)))"

text \<open>
  The \<^verbatim>\<open>job_next\<close> branch reads the row with one statement and writes the cursor with
  later ones, on two connections: \<open>job_next_select\<close> is the \<^verbatim>\<open>SELECT\<close>, \<open>job_next_resume\<close>
  what the handler does with the row that it fetched, whatever the table holds by then,
  and \<open>job_next\<close> the two with nothing in between. The later statements are awaited one
  by one as well; the wait after the \<^verbatim>\<open>SELECT\<close> is the first at which another handler can
  change the row that was read.
\<close>

definition job_next_select :: "int \<Rightarrow> pending_row option action" where
  "job_next_select uid = reads (\<lambda>w. find (\<lambda>r. p_user r = uid) (pending_jobs w))"

definition job_next_resume :: "env \<Rightarrow> int \<Rightarrow> ustr \<Rightarrow> int \<Rightarrow> pending_row option \<Rightarrow> response action" where
  "job_next_resume env uid call_id msg_id row =
    (case row of
       None \<Rightarrow> seq (telegram env (AnswerCallback call_id (Some msg_list_empty))) (ret OkTrue)
     | Some r \<Rightarrow>
         (let jobs = p_jobs r; cursor = p_cursor r + 1 in
          seq (modify (\<lambda>w. w\<lparr>jobs_cursor := cache_put uid cursor (jobs_cursor w)\<rparr>))
          (if int (length jobs) \<le> cursor then jobs_exhausted env uid call_id msg_id
           else
             seq (modify (\<lambda>w. w\<lparr>pending_jobs := update_cursor uid cursor (pending_jobs w)\<rparr>))
             (case skip_non_dict jobs cursor of
                Inl e \<Rightarrow> throw e
              | Inr cursor2 \<Rightarrow>
                  if int (length jobs) \<le> cursor2 then jobs_exhausted env uid call_id msg_id
                  else
                    seq (modify (\<lambda>w. w\<lparr>pending_jobs :=
                           update_cursor uid cursor2 (pending_jobs w)\<rparr>))
                    (seq (modify (\<lambda>w. w\<lparr>jobs_cursor := cache_put uid cursor2 (jobs_cursor w)\<rparr>))
                    (case py_index jobs cursor2 of
                       Some (JobDict job) \<Rightarrow>
                         (case format_vacancy (wordsep_split env) job of
                            Inl e \<Rightarrow> throw e
                          | Inr (caption, logo) \<Rightarrow>
                              seq (telegram env (DeleteMessage uid msg_id))
                              (seq (send_card env uid job caption logo)
                              (seq (telegram env (AnswerCallback call_id None))
                              (ret OkTrue))))
                     | Some JobOther \<Rightarrow> throw AttributeError
                     | None \<Rightarrow> throw IndexError))))))"

definition job_next :: "env \<Rightarrow> int \<Rightarrow> ustr \<Rightarrow> int \<Rightarrow> response action" where
  "job_next env uid call_id msg_id =
     and_then (job_next_select uid) (job_next_resume env uid call_id msg_id)"

text \<open>
  Two handlers that overlap. While a handler waits at an \<^verbatim>\<open>await\<close> the scheduler runs the
  handlers of other updates, of the same user or of another. \<open>overlapped first rest other\<close>
  is the handler \<open>and_then first rest\<close> with the handler \<open>other\<close> run from its start to its
  end while the first one waits between \<open>first\<close> and \<open>rest\<close>; what \<open>other\<close> returns or
  raises goes to its own request.
\<close>

definition overlapped :: "'a action \<Rightarrow> ('a \<Rightarrow> 'b action) \<Rightarrow> 'c action \<Rightarrow> 'b action" where
  "overlapped first rest other = and_then first (\<lambda>x w. rest x (snd (other w)))"

text \<open>
  The free-text branch. \<^verbatim>\<open>text.isdigit()\<close> is modelled for the ASCII digits. The OAuth
  link of \<^verbatim>\<open>/start\<close> is the keyboard \<open>OAuthKeyboard\<close>.
\<close>

definition py_isdigit :: "ustr \<Rightarrow> bool" where
  "py_isdigit s = (s \<noteq> [] \<and> list_all is_digit s)"

definition store_pending_input :: "env \<Rightarrow> int \<Rightarrow> ustr \<Rightarrow> ustr \<Rightarrow> response action" where
  "store_pending_input env uid k text =
     seq (modify (save_user_setting uid k text))
     (seq (modify (set_pending uid None))
     (and_then (reads (get_settings_msg_id uid)) (\<lambda>msg_id.
      seq (safe_edit_text_by_id env uid msg_id msg_your_filters SettingsKeyboard)
      (ret OkTrue))))"

definition handle_command :: "env \<Rightarrow> int \<Rightarrow> ustr \<Rightarrow> response option action" where
  "handle_command env uid text =
     (if text = ascii ''/start'' then
        seq (modify (set_pending uid None))
        (and_then (reads (get_user_token uid)) (\<lambda>token.
           case token of
             None \<Rightarrow>
               seq (telegram env (SendMessage uid (msg_intro @ msg_step_one) (OAuthKeyboard uid)))
                 (ret (Some OkTrue))
           | Some _ \<Rightarrow>
               and_then (telegram env (SendMessage uid (msg_authorized @ msg_intro) MainMenuKeyboard))
                 (\<lambda>n. seq (modify (set_settings_msg_id uid (tg_message_id env n)))
                        (ret (Some OkTrue)))))
      else if text = ascii ''/jobs'' then
        seq (modify (set_pending uid None)) (seq (run_jobs env uid) (ret (Some OkTrue)))
      else if text = ascii ''/menu'' then
        seq (modify (set_pending uid None))
        (and_then (telegram env (SendMessage uid msg_main_menu MainMenuKeyboard))
           (\<lambda>n. seq (modify (set_settings_msg_id uid (tg_message_id env n))) (ret (Some OkTrue))))
      else if text = ascii ''/settings'' then
        seq (modify (set_pending uid None))
        (and_then (telegram env (SendMessage uid msg_your_filters SettingsKeyboard))
           (\<lambda>n. seq (modify (set_settings_msg_id uid (tg_message_id env n))) (ret (Some OkTrue))))
      else ret None)"

text \<open>
  The body of the \<^verbatim>\<open>try\<close>: the commands first; a text that no command branch returned
  for goes on to the pending input. When nothing returns, the function ends without a
  \<^verbatim>\<open>return\<close> and the handler's value is None.
\<close>

definition text_body :: "env \<Rightarrow> int \<Rightarrow> ustr \<Rightarrow> ustr option \<Rightarrow> response action" where
  "text_body env uid text pending =
     and_then (if text \<noteq> [] \<and> hd text = 47 then handle_command env uid text else ret None)
       (\<lambda>done.
          case done of
            Some r \<Rightarrow> ret r
          | None \<Rightarrow>
              if pending = Some region_key then store_pending_input env uid region_key text
              else if pending = Some salary_key \<and> py_isdigit text then
                store_pending_input env uid salary_key text
              else if pending = Some keyword_key then store_pending_input env uid keyword_key text
              else ret Null)"

definition handle_text :: "env \<Rightarrow> int \<Rightarrow> int \<Rightarrow> ustr \<Rightarrow> response action" where
  "handle_text env uid msg_id raw_text =
     (let text = py_strip raw_text in
      and_then (reads (get_pending uid)) (\<lambda>pending.
      seq (modify (ensure_user uid))
      (finally_do (text_body env uid text pending)
         (if or_empty pending \<noteq> [] then safe_delete env uid msg_id else ret ()))))"

text \<open>
  An update, after \<^verbatim>\<open>types.Update(**await request.json())\<close>: a press of one of the buttons
  \<^verbatim>\<open>start_auto\<close>, \<^verbatim>\<open>start_manual\<close> and \<^verbatim>\<open>job_next\<close> (the branches of the other buttons are
  not part of this development), a message with its text (empty when it has none), or any
  other update.
\<close>

datatype button = StartAuto | StartManual | JobNext

datatype update =
    CallbackQuery int ustr int button
  | Message int int ustr
  | OtherUpdate

definition telegram_webhook :: "env \<Rightarrow> ustr \<Rightarrow> update \<Rightarrow> response action" where
  "telegram_webhook env token upd =
     (if token \<noteq> bot_token env then throw HTTP403
      else
        (case upd of
           CallbackQuery uid call_id msg_id data \<Rightarrow>
             seq (modify (ensure_user uid))
               (case data of
                  StartAuto \<Rightarrow> start_auto env uid call_id
                | StartManual \<Rightarrow>
                    seq (telegram env (AnswerCallback call_id None))
                      (seq (run_jobs env uid) (ret OkTrue))
                | JobNext \<Rightarrow> job_next env uid call_id msg_id)
         | Message uid msg_id text \<Rightarrow>
             if text = [] then ret Null else handle_text env uid msg_id text
         | OtherUpdate \<Rightarrow> ret Null))"

section \<open>The table of pending jobs\<close>

text \<open>
  The state and result in which an action ends, as a predicate transformer: \<open>wp m Q w\<close>
  says that \<open>Q\<close> holds of the result and the world that \<open>m\<close> ends in from \<open>w\<close>, whether
  it returns or raises.
\<close>

definition wp :: "'a action \<Rightarrow> ((error + 'a) \<Rightarrow> world \<Rightarrow> bool) \<Rightarrow> world \<Rightarrow> bool" where
  "wp m Q w = Q (fst (m w)) (snd (m w))"

text \<open>An action that leaves the table of pending jobs alone.\<close>

definition frame :: "'a action \<Rightarrow> bool" where
  "frame m = (\<forall>w. pending_jobs (snd (m w)) = pending_jobs w)"

text \<open>
  The invariant of \<^verbatim>\<open>pending_jobs\<close>: the primary key \<^verbatim>\<open>tg_user\<close> is unique, and the cursor of
  every row is an index into its list. \<open>row_of\<close> is the row that
  \<^verbatim>\<open>SELECT ... WHERE tg_user = ?\<close> fetches.
\<close>

definition in_range :: "pending_row \<Rightarrow> bool" where
  "in_range r = (0 \<le> p_cursor r \<and> p_cursor r < int (length (p_jobs r)))"

definition rows_ok :: "pending_row list \<Rightarrow> bool" where
  "rows_ok rows = (distinct (map p_user rows) \<and> list_all in_range rows)"

definition pending_inv :: "world \<Rightarrow> bool" where
  "pending_inv w = rows_ok (pending_jobs w)"

definition row_of :: "int \<Rightarrow> world \<Rightarrow> pending_row option" where
  "row_of uid w = find (\<lambda>r. p_user r = uid) (pending_jobs w)"

text \<open>
  What \<^verbatim>\<open>job_next\<close> may leave in the table when it found the row \<open>r\<close>: the table as it
  was, the row with a cursor further on and in range, or the row deleted; and when the
  handler returns, the cursor that the skipping loop reaches if that is in range, no row
  otherwise.
\<close>

definition next_post :: "int \<Rightarrow> pending_row \<Rightarrow> pending_row list \<Rightarrow> (error + response) \<Rightarrow> world \<Rightarrow> bool" where
  "next_post uid r rows res w' =
     ((pending_jobs w' = rows \<or>
       (\<exists>c. p_cursor r < c \<and> c < int (length (p_jobs r)) \<and> pending_jobs w' = update_cursor uid c rows) \<or>
       pending_jobs w' = delete_pending uid rows) \<and>
      (\<forall>x. res = Inr x \<longrightarrow>
         (case skip_non_dict (p_jobs r) (p_cursor r + 1) of
            Inl e \<Rightarrow> False
          | Inr c' \<Rightarrow>
              if c' < int (length (p_jobs r)) then pending_jobs w' = update_cursor uid c' rows
              else pending_jobs w' = delete_pending uid rows)))"

text \<open>What \<^verbatim>\<open>run_jobs\<close> may leave in the table: the table as it was, or the user's row
  replaced by a non-empty list with cursor 0.\<close>

definition created :: "int \<Rightarrow> pending_row list \<Rightarrow> pending_row list \<Rightarrow> bool" where
  "created uid rows rows' =
     (rows' = rows \<or> (\<exists>vs. vs \<noteq> [] \<and> rows' = upsert_pending uid (map JobDict vs) rows))"

text \<open>The webhook serving requests that do not overlap: each is handled to its end before
  the next is taken up.\<close>

fun serve_in_turn :: "(env \<times> ustr \<times> update) list \<Rightarrow> world \<Rightarrow> world" where
  "serve_in_turn [] w = w"
| "serve_in_turn ((env, token, upd) # rest) w = serve_in_turn rest (snd (telegram_webhook env token upd w))"

text \<open>An action that keeps the invariant of \<^verbatim>\<open>pending_jobs\<close>, however it ends.\<close>

definition preserves :: "'a action \<Rightarrow> bool" where
  "preserves m = (\<forall>w. pending_inv w \<longrightarrow> pending_inv (snd (m w)))"

text \<open>A search result that \<^verbatim>\<open>run_jobs\<close> turns into \<open>posting i\<close>, and the services of
  \<open>env1\<close> with a job board that answers every search with the given items.\<close>

definition raw_posting :: "nat \<Rightarrow> raw_vacancy" where
  "raw_posting i = \<lparr>rv_id = digits i, rv_name = ascii ''Job'', rv_alternate_url = ascii ''u'',
                   rv_salary = SalaryMissing, rv_employer = EmployerMissing,
                   rv_snippet = RawSnippet (Some (ascii ''work'')) None\<rparr>"

definition searching :: "raw_vacancy list \<Rightarrow> env" where
  "searching items = env1\<lparr>hh_items := (\<lambda>n. Some items)\<rparr>"

text \<open>The user of \<open>world1\<close> asked for a region, or for a salary.\<close>

definition awaiting :: "ustr \<Rightarrow> world" where
  "awaiting field =
     world1\<lparr>user_settings := [\<lparr>s_user = 1, s_key = pending_key, s_value = Some field\<rparr>],
            users := [\<lparr>u_chat = 1, u_settings_msg = Some 3\<rparr>]\<rparr>"

text \<open>The user of \<open>world1\<close> after pressing \<^verbatim>\<open>start_manual\<close> when the search finds two
  postings.\<close>

definition two_found :: world where
  "two_found =
     snd (telegram_webhook (searching [raw_posting 0, raw_posting 1]) (ascii ''T'')
            (CallbackQuery 1 (ascii ''q'') 5 StartManual) world1)"

text \<open>The user of \<open>world1\<close> after a retrieval that finds one posting.\<close>

definition one_found :: world where
  "one_found = snd (run_jobs (searching [raw_posting 2]) 1 world1)"

text \<open>A posting with no snippet and the description \<open>d\<close>.\<close>

definition described :: "ustr \<Rightarrow> vacancy" where
  "described d = (posting 0)\<lparr>v_snippet := SnippetNone, v_description := Some d\<rparr>"

lemmas run_defs =
  telegram_webhook_def handle_text_def text_body_def handle_command_def store_pending_input_def
  safe_edit_text_by_id_def safe_delete_def telegram_def external_def
  and_then_def seq_def catch_def finally_do_def reads_def modify_def ret_def throw_def
  get_pending_def set_pending_def get_user_setting_def save_user_setting_def select_value_def
  insert_or_replace_def row_is_def ensure_user_def get_settings_msg_id_def set_settings_msg_id_def
  py_strip_def is_space_def py_isdigit_def is_digit_def or_empty_def
  pending_key_def region_key_def salary_key_def keyword_key_def resume_key_def
  awaiting_def world1_def env1_def ascii_def Let_def


section \<open>Lemmas about strings and the store\<close>

lemma find_filter_not: "find P (filter (\<lambda>x. \<not> P x) xs) = None"
  by (induction xs) auto

lemma filter_filter_not: "filter P (filter (\<lambda>x. \<not> P x) xs) = []"
  by (induction xs) auto

lemma find_app: "find P (xs @ ys) = (case find P xs of None \<Rightarrow> find P ys | Some x \<Rightarrow> Some x)"
  by (induction xs) auto

lemma select_insert_same:
  "select_value uid k (insert_or_replace \<lparr>s_user = uid, s_key = k, s_value = v\<rparr> rows) = v"
proof -
  have "find (row_is uid k) (filter (\<lambda>x. \<not> row_is uid k x) rows) = None"
    by (rule find_filter_not)
  then show ?thesis
    by (simp add: select_value_def insert_or_replace_def find_app) (simp add: row_is_def)
qed

lemma get_save_same: "get_user_setting uid k (save_user_setting uid k v st) = Some v"
  by (simp add: get_user_setting_def save_user_setting_def select_insert_same)

lemma count_insert_same:
  "length (filter (row_is uid k) (insert_or_replace \<lparr>s_user = uid, s_key = k, s_value = v\<rparr> rows)) = 1"
proof -
  have "filter (row_is uid k) (filter (\<lambda>x. \<not> row_is uid k x) rows) = []"
    by (rule filter_filter_not)
  then show ?thesis
    by (simp add: insert_or_replace_def) (simp add: row_is_def)
qed

lemma digits_nonempty: "digits n \<noteq> []"
  by (subst digits.simps) simp

lemma digits_all_digit: "list_all is_digit (digits n)"
proof (induction n rule: digits.induct)
  case (1 n)
  show ?case
  proof (cases "n < 10")
    case True
    then show ?thesis by (subst digits.simps) (simp add: is_digit_def)
  next
    case False
    have "n mod 10 < 10" by simp
    then have "is_digit (48 + n mod 10)" unfolding is_digit_def by linarith
    with False 1 show ?thesis by (subst digits.simps) simp
  qed
qed

lemma digits_value_snoc: "digits_value (ds @ [c]) = 10 * digits_value ds + (c - 48)"
  by (simp add: digits_value_def)

lemma digits_value_digits: "digits_value (digits n) = n"
proof (induction n rule: digits.induct)
  case (1 n)
  show ?case
  proof (cases "n < 10")
    case True
    then show ?thesis by (subst digits.simps) (simp add: digits_value_def)
  next
    case False
    with 1 show ?thesis by (subst digits.simps) (simp add: digits_value_snoc)
  qed
qed

lemma unsigned_int_digits: "unsigned_int (digits n) = Some n"
  by (simp add: unsigned_int_def digits_nonempty digits_all_digit digits_value_digits)

lemma digit_not_space: "is_digit c \<Longrightarrow> \<not> is_space c"
  by (auto simp: is_digit_def is_space_def)

lemma py_strip_id:
  assumes "s \<noteq> []" "\<not> is_space (hd s)" "\<not> is_space (last s)"
  shows "py_strip s = s"
proof -
  from assms have a: "dropWhile is_space s = s" by (cases s) auto
  from assms have "rev s \<noteq> []" "\<not> is_space (hd (rev s))" by (auto simp: hd_rev)
  then have "dropWhile is_space (rev s) = rev s" by (cases "rev s") auto
  with a show ?thesis by (simp add: py_strip_def)
qed

lemma py_int_str: "py_int (py_str_int i) = Some i"
proof -
  obtain c cs where d: "digits (nat \<bar>i\<bar>) = c # cs"
    using digits_nonempty by (cases "digits (nat \<bar>i\<bar>)") auto
  have alld: "list_all is_digit (c # cs)" using digits_all_digit [of "nat \<bar>i\<bar>"] d by simp
  then have c: "is_digit c" and l: "is_digit (last (c # cs))"
    by (auto simp: list_all_iff)
  have u: "unsigned_int (c # cs) = Some (nat \<bar>i\<bar>)" using unsigned_int_digits [of "nat \<bar>i\<bar>"] d by simp
  show ?thesis
  proof (cases "i < 0")
    case True
    have "py_strip (45 # c # cs) = 45 # c # cs"
      using l digit_not_space by (intro py_strip_id) (auto simp: is_space_def)
    with True d u show ?thesis by (simp add: py_str_int_def py_int_def)
  next
    case False
    have "py_strip (c # cs) = c # cs"
      using c l digit_not_space by (intro py_strip_id) auto
    moreover have "c \<noteq> 45" "c \<noteq> 43" using c by (auto simp: is_digit_def)
    ultimately show ?thesis using False d u by (simp add: py_str_int_def py_int_def)
  qed
qed

lemma next_jobs_page_stored:
  assumes "get_user_setting uid jobs_page_key st = Some (py_str_int p)"
  shows "next_jobs_page uid st =
    (Inr p, save_user_setting uid jobs_page_key (py_str_int (if p < 19 then p + 1 else 0)) st)"
proof -
  have "py_str_int p \<noteq> []" by (simp add: py_str_int_def digits_nonempty)
  with assms show ?thesis by (simp add: next_jobs_page_def py_int_str Let_def)
qed

lemma next_jobs_page_fresh:
  assumes "get_user_setting uid jobs_page_key st = None"
  shows "next_jobs_page uid st = (Inr 0, save_user_setting uid jobs_page_key (py_str_int 1) st)"
  using assms by (simp add: next_jobs_page_def Let_def)

lemma advance_times_cycle:
  "get_user_setting uid jobs_page_key st = Some (py_str_int p) \<Longrightarrow> 0 \<le> p \<Longrightarrow> p \<le> 19 \<Longrightarrow>
   fst (advance_times n uid st) = map (\<lambda>k. Inr ((p + int k) mod 20)) [0..<n]"
proof (induction n arbitrary: st p)
  case 0
  then show ?case by simp
next
  case (Suc n)
  let ?q = "if p < 19 then p + 1 else 0"
  let ?st = "save_user_setting uid jobs_page_key (py_str_int ?q) st"
  have step: "next_jobs_page uid st = (Inr p, ?st)" using Suc.prems(1) by (rule next_jobs_page_stored)
  have g: "get_user_setting uid jobs_page_key ?st = Some (py_str_int ?q)" by (rule get_save_same)
  have q: "0 \<le> ?q" "?q \<le> 19" using Suc.prems by auto
  have ih: "fst (advance_times n uid ?st) = map (\<lambda>k. Inr ((?q + int k) mod 20)) [0..<n]"
    using Suc.IH [OF g q] .
  have shift: "(?q + int k) mod 20 = (p + int (Suc k)) mod 20" for k
    using Suc.prems by (auto simp: algebra_simps) 
  have "fst (advance_times (Suc n) uid st) = Inr p # fst (advance_times n uid ?st)"
    by (simp add: step split: prod.splits)
  also have "\<dots> = Inr (p mod 20) # map (\<lambda>k. Inr ((p + int (Suc k)) mod 20)) [0..<n]"
    using Suc.prems ih shift by simp
  also have "\<dots> = map (\<lambda>k. Inr ((p + int k) mod 20)) [0..<Suc n]"
    by (simp add: map_upt_Suc del: upt_Suc)
  finally show ?case .
qed


lemma py_strip_Nil: "py_strip [] = []"
  by (simp add: py_strip_def)

lemma py_strip_idem: "py_strip (py_strip s) = py_strip s"
proof -
  define t where "t = dropWhile is_space s"
  define u where "u = dropWhile is_space (rev t)"
  have r: "py_strip s = rev u" by (simp add: py_strip_def t_def u_def)
  show ?thesis
  proof (cases "u = []")
    case True
    then show ?thesis by (simp add: r py_strip_Nil)
  next
    case False
    then have hu: "\<not> is_space (hd u)" unfolding u_def by (rule hd_dropWhile)
    from False have tne: "t \<noteq> []" by (auto simp: u_def)
    then have ht: "\<not> is_space (hd t)" unfolding t_def by (rule hd_dropWhile)
    obtain p where "rev t = p @ u"
      unfolding u_def by (metis takeWhile_dropWhile_id)
    with False have "last u = last (rev t)" by simp
    also have "\<dots> = hd t" using tne by (simp add: last_rev)
    finally have lu: "\<not> is_space (last u)" using ht by simp
    have "py_strip (rev u) = rev u"
      using False hu lu by (intro py_strip_id) (simp_all add: hd_rev last_rev)
    then show ?thesis by (simp add: r)
  qed
qed

lemma set_py_strip: "set (py_strip s) \<subseteq> set s"
  unfolding py_strip_def by (auto dest!: set_dropWhileD)

lemma split_on_nonempty: "split_on sep s \<noteq> []"
  by (induction s) (auto split: list.splits)

lemma split_on_no_sep: "x \<in> set (split_on sep s) \<Longrightarrow> sep \<notin> set x"
proof (induction s arbitrary: x)
  case Nil
  then show ?case by simp
next
  case (Cons c cs)
  then show ?case
    by (cases "split_on sep cs") (auto split: if_splits)
qed

lemma split_on_plain: "sep \<notin> set x \<Longrightarrow> split_on sep x = [x]"
  by (induction x) auto

lemma split_on_append: "sep \<notin> set x \<Longrightarrow> split_on sep (x @ sep # rest) = x # split_on sep rest"
  by (induction x) auto

lemma split_on_join:
  "xs \<noteq> [] \<Longrightarrow> list_all (\<lambda>x. sep \<notin> set x) xs \<Longrightarrow> split_on sep (py_join [sep] xs) = xs"
proof (induction xs)
  case Nil
  then show ?case by simp
next
  case (Cons x xs)
  then show ?case
    by (cases xs) (simp_all add: split_on_plain split_on_append)
qed

lemma parse_items_join:
  assumes "list_all clean xs"
  shows "set (parse_items (py_join [44] xs)) = set xs - {[]}"
proof (cases "xs = []")
  case True
  then show ?thesis by (simp add: parse_items_def py_strip_Nil)
next
  case False
  have "list_all (\<lambda>x. 44 \<notin> set x) xs" using assms by (simp add: list_all_iff clean_def)
  with False have "split_on 44 (py_join [44] xs) = xs" by (rule split_on_join)
  moreover have "map py_strip xs = xs"
    using assms by (simp add: list_all_iff clean_def map_idI)
  ultimately show ?thesis by (auto simp: parse_items_def)
qed

lemma parse_items_clean: "x \<in> set (parse_items s) \<Longrightarrow> clean x \<and> x \<noteq> []"
proof -
  assume "x \<in> set (parse_items s)"
  then obtain y where y: "y \<in> set (split_on 44 s)" and x: "x = py_strip y" and ne: "x \<noteq> []"
    by (auto simp: parse_items_def)
  have "44 \<notin> set y" using y by (rule split_on_no_sep)
  then have "44 \<notin> set x" using set_py_strip [of y] x by auto
  then show ?thesis using x ne by (simp add: clean_def py_strip_idem)
qed

lemma selected_after_save:
  assumes perm: "\<And>xs. set (order xs) = set xs" and cl: "list_all clean items"
  shows "selected_values uid k (save_user_setting uid k (py_join [44] (order items)) st) = set items - {[]}"
proof -
  have "list_all clean (order items)" using cl perm by (simp add: list_all_iff)
  then have "set (parse_items (py_join [44] (order items))) = set (order items) - {[]}"
    by (rule parse_items_join)
  then show ?thesis by (simp add: selected_values_def get_save_same perm)
qed

lemma toggle_selected:
  assumes perm: "\<And>xs. set (order xs) = set xs" and v: "clean v"
  shows "selected_values uid k (snd (toggle_multi_value order uid k v st)) =
     (if v \<in> selected_values uid k st then selected_values uid k st - {v}
      else (selected_values uid k st \<union> {v}) - {[]})"
proof -
  define items where "items = parse_items (case get_user_setting uid k st of None \<Rightarrow> [] | Some s \<Rightarrow> s)"
  define items' where "items' = (if v \<in> set items then removeAll v items else items @ [v])"
  have sel: "selected_values uid k st = set items" by (simp add: selected_values_def items_def)
  have ci: "list_all clean items" and ne: "[] \<notin> set items"
    using parse_items_clean unfolding items_def by (auto simp: list_all_iff)
  have "list_all clean items'" using ci v by (auto simp: items'_def list_all_iff)
  then have "selected_values uid k (save_user_setting uid k (py_join [44] (order items')) st) = set items' - {[]}"
    using perm by (intro selected_after_save) 
  moreover have "snd (toggle_multi_value order uid k v st) = save_user_setting uid k (py_join [44] (order items')) st"
    by (simp add: toggle_multi_value_def Let_def items_def items'_def)
  ultimately show ?thesis using ne by (auto simp: sel items'_def)
qed

lemma ascii_keys [simp]:
  "ascii ''from'' \<noteq> ascii ''to''" "ascii ''from'' \<noteq> ascii ''currency''"
  "ascii ''to'' \<noteq> ascii ''from''" "ascii ''to'' \<noteq> ascii ''currency''"
  "ascii ''currency'' \<noteq> ascii ''from''" "ascii ''currency'' \<noteq> ascii ''to''"
  by (simp_all add: ascii_def)

lemma succeeded_failed: "succeeded env r m + failed env r m = m"
  unfolding succeeded_def failed_def
  using sum_length_filter_compl [of "\<lambda>i. hh_respond_ok env (r + i)" "[0..<m]"]
  by simp

lemma succeeded_0: "succeeded env r 0 = 0"
  by (simp add: succeeded_def)

lemma succeeded_Suc:
  "succeeded env r (Suc m) = (if hh_respond_ok env r then 1 else 0) + succeeded env (Suc r) m"
proof -
  have "[0..<Suc m] = 0 # map Suc [0..<m]"
    by (simp add: upt_conv_Cons map_Suc_upt del: upt_Suc)
  then show ?thesis by (simp add: succeeded_def filter_map o_def del: upt_Suc)
qed

lemma generate_ok:
  assumes "llm_text env (calls w Llm) = Some t"
  shows "generate_cover_letter env a resume w =
    (Inr (py_strip t), w\<lparr>trace := trace w @ [LlmCreate a resume],
                          calls := (calls w)(Llm := Suc (calls w Llm))\<rparr>)"
  using assms by (simp add: generate_cover_letter_def and_then_def external_def ret_def)

lemma send_apply_run:
  assumes "get_user_setting uid resume_key w = Some rid" "rid \<noteq> []"
  shows "send_apply env uid vid cover w =
    ((if hh_respond_ok env (calls w HhRespondApi) then Inr () else Inl UpstreamError),
     w\<lparr>trace := trace w @ [HhRespond (client_token (get_user_token uid w)) vid rid cover],
       calls := (calls w)(HhRespondApi := Suc (calls w HhRespondApi))\<rparr>)"
  using assms
  by (simp add: send_apply_def and_then_def reads_def external_def ret_def throw_def or_empty_def)

lemma auto_loop_run:
  assumes llm: "\<And>n. llm_text env n \<noteq> None"
  shows "get_user_setting uid resume_key w = Some rid \<Longrightarrow> rid \<noteq> [] \<Longrightarrow>
    fst (auto_loop env uid resume vs sent w) =
      Inr (sent + succeeded env (calls w HhRespondApi) (length vs)) \<and>
    trace (snd (auto_loop env uid resume vs sent w)) =
      trace w @ loop_events env (client_token (get_user_token uid w)) rid resume
                  (calls w Llm) (calls w HhRespondApi) vs \<and>
    calls (snd (auto_loop env uid resume vs sent w)) Telegram = calls w Telegram"
proof (induction vs arbitrary: sent w)
  case Nil
  then show ?case by (simp add: succeeded_0)
next
  case (Cons v vs)
  obtain t where t: "llm_text env (calls w Llm) = Some t"
    using llm [of "calls w Llm"] by auto
  define w1 where "w1 = w\<lparr>trace := trace w @ [LlmCreate (vacancy_arg v) resume],
                          calls := (calls w)(Llm := Suc (calls w Llm))\<rparr>"
  define w2 where "w2 = w1\<lparr>trace := trace w1 @
         [HhRespond (client_token (get_user_token uid w1)) (v_id v) rid (py_strip t)],
       calls := (calls w1)(HhRespondApi := Suc (calls w1 HhRespondApi))\<rparr>"
  have g: "generate_cover_letter env (vacancy_arg v) resume w = (Inr (py_strip t), w1)"
    unfolding w1_def using t by (rule generate_ok)
  have r1: "get_user_setting uid resume_key w1 = Some rid"
    using Cons.prems(1) by (simp add: w1_def get_user_setting_def)
  have s: "send_apply env uid (v_id v) (py_strip t) w1 =
      ((if hh_respond_ok env (calls w1 HhRespondApi) then Inr () else Inl UpstreamError), w2)"
    unfolding w2_def using r1 Cons.prems(2) by (rule send_apply_run)
  have r2: "get_user_setting uid resume_key w2 = Some rid"
    using r1 by (simp add: w2_def get_user_setting_def)
  have c1: "calls w1 HhRespondApi = calls w HhRespondApi" by (simp add: w1_def)
  have tok: "get_user_token uid w2 = get_user_token uid w"
    "get_user_token uid w1 = get_user_token uid w"
    by (simp_all add: w2_def w1_def get_user_token_def)
  show ?case
  proof (cases "hh_respond_ok env (calls w HhRespondApi)")
    case True
    have step: "auto_loop env uid resume (v # vs) sent w =
        auto_loop env uid resume vs (sent + 1) w2"
      using True by (simp add: g s c1)
    have w2f: "trace w2 = trace w @ [LlmCreate (vacancy_arg v) resume,
        HhRespond (client_token (get_user_token uid w)) (v_id v) rid (py_strip t)]"
      "calls w2 Llm = Suc (calls w Llm)" "calls w2 HhRespondApi = Suc (calls w HhRespondApi)"
      "calls w2 Telegram = calls w Telegram"
      by (simp_all add: w2_def w1_def get_user_token_def)
    show ?thesis
      using Cons.IH [OF r2 Cons.prems(2), of "sent + 1"] True
      unfolding step by (simp add: w2f tok succeeded_Suc t or_empty_def del: auto_loop.simps)
  next
    case False
    define w3 where "w3 = w2\<lparr>trace := trace w2 @ [LogWarning (v_id v)]\<rparr>"
    have step: "auto_loop env uid resume (v # vs) sent w = auto_loop env uid resume vs sent w3"
      using False by (simp add: g s c1 log_warning_def modify_def w3_def)
    have r3: "get_user_setting uid resume_key w3 = Some rid"
      using r2 by (simp add: w3_def get_user_setting_def)
    have w3f: "trace w3 = trace w @ [LlmCreate (vacancy_arg v) resume,
        HhRespond (client_token (get_user_token uid w)) (v_id v) rid (py_strip t),
        LogWarning (v_id v)]"
      "calls w3 Llm = Suc (calls w Llm)" "calls w3 HhRespondApi = Suc (calls w HhRespondApi)"
      "calls w3 Telegram = calls w Telegram"
      "get_user_token uid w3 = get_user_token uid w"
      by (simp_all add: w3_def w2_def w1_def get_user_token_def)
    show ?thesis
      using Cons.IH [OF r3 Cons.prems(2), of sent] False
      unfolding step by (simp add: w3f succeeded_Suc t or_empty_def del: auto_loop.simps)
  qed
qed

lemma generations_append: "generations (xs @ ys) = generations xs @ generations ys"
  by (induction xs rule: generations.induct) auto

lemma submissions_append: "submissions (xs @ ys) = submissions xs @ submissions ys"
  by (induction xs rule: submissions.induct) auto

lemma warnings_append: "warnings (xs @ ys) = warnings xs @ warnings ys"
  by (induction xs rule: warnings.induct) auto

lemma generations_loop: "generations (loop_events env tok rid resume l r vs) = map vacancy_arg vs"
  by (induction vs arbitrary: l r) (auto simp: generations_append)

lemma submissions_loop: "submissions (loop_events env tok rid resume l r vs) = map v_id vs"
  by (induction vs arbitrary: l r) (auto simp: submissions_append)

lemma warnings_loop:
  "length (warnings (loop_events env tok rid resume l r vs)) + succeeded env r (length vs) = length vs"
  by (induction vs arbitrary: l r) (auto simp: warnings_append succeeded_0 succeeded_Suc)

lemma resume_summary_run:
  assumes "get_user_setting uid resume_key w = Some rid" "rid \<noteq> []"
    and "hh_resume env (calls w HhResumeApi) = Some txt"
  shows "get_resume_summary env uid w =
    (Inr (take 1200 txt),
     w\<lparr>trace := trace w @ [HhResumeText (client_token (get_user_token uid w)) rid],
       calls := (calls w)(HhResumeApi := Suc (calls w HhResumeApi))\<rparr>)"
  using assms
  by (simp add: get_resume_summary_def and_then_def reads_def external_def ret_def or_empty_def)

declare skip_non_dict.simps [simp del]

section \<open>Lemmas about the handlers\<close>

lemma wp_ret: "wp (ret x) Q w = Q (Inr x) w"
  by (simp add: wp_def ret_def)

lemma wp_throw: "wp (throw e) Q w = Q (Inl e) w"
  by (simp add: wp_def throw_def)

lemma wp_modify: "wp (modify f) Q w = Q (Inr ()) (f w)"
  by (simp add: wp_def modify_def)

lemma wp_reads: "wp (reads f) Q w = Q (Inr (f w)) w"
  by (simp add: wp_def reads_def)

lemma wp_and_then:
  "wp (and_then m f) Q w =
     wp m (\<lambda>r w'. case r of Inl e \<Rightarrow> Q (Inl e) w' | Inr x \<Rightarrow> wp (f x) Q w') w"
  by (simp add: wp_def and_then_def split: prod.splits sum.splits)

lemma wp_seq:
  "wp (seq m n) Q w =
     wp m (\<lambda>r w'. case r of Inl e \<Rightarrow> Q (Inl e) w' | Inr x \<Rightarrow> wp n Q w') w"
  by (simp add: seq_def wp_and_then)

lemma wp_catch:
  "wp (catch m h) Q w =
     wp m (\<lambda>r w'. case r of Inl e \<Rightarrow> wp (h e) Q w' | Inr x \<Rightarrow> Q (Inr x) w') w"
  by (simp add: wp_def catch_def split: prod.splits sum.splits)

lemma wp_finally:
  "wp (finally_do m c) Q w =
     wp m (\<lambda>r w'. wp c (\<lambda>rc w''. case rc of Inl e \<Rightarrow> Q (Inl e) w'' | Inr _ \<Rightarrow> Q r w'') w') w"
  by (simp add: wp_def finally_do_def split: prod.splits sum.splits)

lemma wp_mono: "wp m Q w \<Longrightarrow> (\<And>r w'. Q r w' \<Longrightarrow> Q' r w') \<Longrightarrow> wp m Q' w"
  by (simp add: wp_def)

lemma wp_frame:
  assumes "frame m" and "\<And>r w'. pending_jobs w' = pending_jobs w \<Longrightarrow> Q r w'"
  shows "wp m Q w"
  using assms by (simp add: wp_def frame_def)

lemma frame_ret [simp]: "frame (ret x)" by (simp add: frame_def ret_def)

lemma frame_throw [simp]: "frame (throw e)" by (simp add: frame_def throw_def)

lemma frame_reads [simp]: "frame (reads f)" by (simp add: frame_def reads_def)

lemma frame_modify: "(\<And>w. pending_jobs (f w) = pending_jobs w) \<Longrightarrow> frame (modify f)"
  by (simp add: frame_def modify_def)

lemma frame_and_then: "frame m \<Longrightarrow> (\<And>x. frame (f x)) \<Longrightarrow> frame (and_then m f)"
  by (auto simp: frame_def and_then_def split: prod.splits sum.splits) (metis snd_conv)+

lemma frame_seq: "frame m \<Longrightarrow> frame n \<Longrightarrow> frame (seq m n)"
  by (simp add: seq_def frame_and_then)

lemma frame_catch: "frame m \<Longrightarrow> (\<And>e. frame (h e)) \<Longrightarrow> frame (catch m h)"
  by (auto simp: frame_def catch_def split: prod.splits sum.splits) (metis snd_conv)+

lemma frame_finally: "frame m \<Longrightarrow> frame c \<Longrightarrow> frame (finally_do m c)"
  by (auto simp: frame_def finally_do_def split: prod.splits sum.splits) (metis snd_conv)+

lemma frame_external [simp]: "frame (external svc ev)"
  by (simp add: frame_def external_def)

lemma frame_telegram [simp]: "frame (telegram env ev)"
  unfolding telegram_def by (intro frame_and_then) (simp_all split: tg_outcome.splits)

lemma frame_safe_edit_markup [simp]: "frame (safe_edit_markup env c m k)"
  unfolding safe_edit_markup_def by (intro frame_catch frame_seq) simp_all

lemma frame_safe_delete [simp]: "frame (safe_delete env c m)"
  unfolding safe_delete_def by (intro frame_catch frame_seq) simp_all

lemma frame_send_card [simp]: "frame (send_card env uid v c l)"
  unfolding send_card_def by (simp add: frame_seq)

lemma frame_safe_edit_text_by_id [simp]: "frame (safe_edit_text_by_id env uid m t k)"
  unfolding safe_edit_text_by_id_def
  by (auto split: option.splits intro!: frame_catch frame_seq frame_and_then frame_modify
      simp: set_settings_msg_id_def)

lemma find_user_in: "find (\<lambda>r. p_user r = uid) rows = Some r \<Longrightarrow> r \<in> set rows \<and> p_user r = uid"
  by (induction rows) (auto split: if_splits)

lemma find_user_none: "find (\<lambda>r. p_user r = uid) rows = None \<longleftrightarrow> uid \<notin> set (map p_user rows)"
  by (induction rows) auto

lemma distinct_user_unique:
  "distinct (map p_user rows) \<Longrightarrow> r \<in> set rows \<Longrightarrow> r' \<in> set rows \<Longrightarrow> p_user r = p_user r' \<Longrightarrow> r = r'"
  by (induction rows) (auto simp: image_iff)

lemma map_p_user_update: "map p_user (update_cursor uid c rows) = map p_user rows"
  by (induction rows) (auto simp: update_cursor_def)

lemma list_all_map_iff: "list_all P (map f xs) \<longleftrightarrow> (\<forall>x\<in>set xs. P (f x))"
  by (simp add: list_all_iff)

lemma rows_ok_update:
  assumes "rows_ok rows" "find (\<lambda>r. p_user r = uid) rows = Some r"
    and "0 \<le> c" "c < int (length (p_jobs r))"
  shows "rows_ok (update_cursor uid c rows)"
proof -
  have d: "distinct (map p_user rows)" and a: "list_all in_range rows"
    using assms(1) by (simp_all add: rows_ok_def)
  have r: "r \<in> set rows" "p_user r = uid" using find_user_in [OF assms(2)] by simp_all
  have "in_range (if p_user x = uid then x\<lparr>p_cursor := c\<rparr> else x)" if "x \<in> set rows" for x
  proof (cases "p_user x = uid")
    case True
    with distinct_user_unique [OF d that r(1)] r(2) have "x = r" by simp
    with True assms(3,4) show ?thesis by (simp add: in_range_def)
  next
    case False
    with a that show ?thesis by (simp add: list_all_iff)
  qed
  then have "list_all in_range (update_cursor uid c rows)"
    by (simp only: update_cursor_def list_all_map_iff) blast
  with d show ?thesis by (simp add: rows_ok_def map_p_user_update)
qed

lemma rows_ok_delete: "rows_ok rows \<Longrightarrow> rows_ok (delete_pending uid rows)"
  by (simp add: rows_ok_def delete_pending_def distinct_map_filter list_all_iff)

lemma map_p_user_upsert_in:
  "map p_user (map (\<lambda>r. if p_user r = uid then r\<lparr>p_jobs := jobs, p_cursor := 0\<rparr> else r) rows)
     = map p_user rows"
  by (induction rows) auto

lemma rows_ok_upsert:
  assumes "rows_ok rows" "jobs \<noteq> []"
  shows "rows_ok (upsert_pending uid jobs rows)"
proof (cases "uid \<in> set (map p_user rows)")
  case False
  with assms show ?thesis
    by (auto simp: rows_ok_def upsert_pending_def list_all_iff in_range_def)
next
  case True
  let ?f = "\<lambda>r. if p_user r = uid then r\<lparr>p_jobs := jobs, p_cursor := 0\<rparr> else r"
  have d: "distinct (map p_user (map ?f rows))"
    using assms(1) by (simp only: map_p_user_upsert_in rows_ok_def)
  have "list_all in_range (map ?f rows)"
    using assms by (auto simp: rows_ok_def list_all_iff in_range_def)
  with d True show ?thesis by (simp only: rows_ok_def upsert_pending_def if_True)
qed

lemma find_update:
  "find (\<lambda>r. p_user r = uid) rows = Some r \<Longrightarrow>
   find (\<lambda>r. p_user r = uid) (update_cursor uid c rows) = Some (r\<lparr>p_cursor := c\<rparr>)"
  by (induction rows) (auto simp: update_cursor_def split: if_splits)

lemma find_delete: "find (\<lambda>r. p_user r = uid) (delete_pending uid rows) = None"
  by (auto simp: find_user_none delete_pending_def)

lemma update_update:
  "update_cursor uid c2 (update_cursor uid c1 rows) = update_cursor uid c2 rows"
  by (induction rows) (auto simp: update_cursor_def)

lemma delete_update:
  "delete_pending uid (update_cursor uid c rows) = delete_pending uid rows"
  by (induction rows) (auto simp: update_cursor_def delete_pending_def)

lemma find_upsert:
  "find (\<lambda>r. p_user r = uid) (upsert_pending uid jobs rows) \<noteq> None \<and>
   p_jobs (the (find (\<lambda>r. p_user r = uid) (upsert_pending uid jobs rows))) = jobs \<and>
   p_cursor (the (find (\<lambda>r. p_user r = uid) (upsert_pending uid jobs rows))) = 0"
proof (cases "uid \<in> set (map p_user rows)")
  case False
  then have "find (\<lambda>r. p_user r = uid) rows = None" by (simp add: find_user_none)
  with False show ?thesis by (simp add: upsert_pending_def find_app)
next
  case True
  have "find (\<lambda>r. p_user r = uid) (map (\<lambda>r. if p_user r = uid then r\<lparr>p_jobs := jobs, p_cursor := 0\<rparr> else r) rows) \<noteq> None \<and>
   p_jobs (the (find (\<lambda>r. p_user r = uid) (map (\<lambda>r. if p_user r = uid then r\<lparr>p_jobs := jobs, p_cursor := 0\<rparr> else r) rows))) = jobs \<and>
   p_cursor (the (find (\<lambda>r. p_user r = uid) (map (\<lambda>r. if p_user r = uid then r\<lparr>p_jobs := jobs, p_cursor := 0\<rparr> else r) rows))) = 0"
    using True by (induction rows) auto
  with True show ?thesis by (simp add: upsert_pending_def)
qed

lemma skip_non_dict_result:
  "0 \<le> c \<Longrightarrow> \<exists>c'. skip_non_dict jobs c = Inr c' \<and> c \<le> c' \<and>
     (c' < int (length jobs) \<longrightarrow> (\<exists>v. py_index jobs c' = Some (JobDict v)))"
proof (induction jobs c rule: skip_non_dict.induct)
  case (1 jobs c)
  show ?case
  proof (cases "c < int (length jobs)")
    case False
    then show ?thesis by (subst skip_non_dict.simps) simp
  next
    case True
    with 1(2) have idx: "py_index jobs c = Some (jobs ! nat c)" by (simp add: py_index_def)
    show ?thesis
    proof (cases "jobs ! nat c")
      case (JobDict v)
      with True idx show ?thesis by (subst skip_non_dict.simps) simp
    next
      case JobOther
      with 1(1) [OF True idx] 1(2) obtain c' where
        "skip_non_dict jobs (c + 1) = Inr c'" "c + 1 \<le> c'"
        "c' < int (length jobs) \<longrightarrow> (\<exists>v. py_index jobs c' = Some (JobDict v))"
        by auto
      with True idx JobOther show ?thesis by (subst skip_non_dict.simps) auto
    qed
  qed
qed

lemma wp_jobs_exhausted:
  assumes "\<And>res w'. pending_jobs w' = pending_jobs w \<or>
              pending_jobs w' = delete_pending uid (pending_jobs w) \<Longrightarrow>
            (\<And>x. res = Inr x \<Longrightarrow> pending_jobs w' = delete_pending uid (pending_jobs w)) \<Longrightarrow>
            Q res w'"
  shows "wp (jobs_exhausted env uid cid mid) Q w"
  unfolding jobs_exhausted_def wp_seq
proof (rule wp_frame [OF frame_telegram])
  fix r :: "error + nat" and w1 :: world
  assume p1: "pending_jobs w1 = pending_jobs w"
  show "case r of Inl e \<Rightarrow> Q (Inl e) w1
        | Inr x \<Rightarrow> wp (safe_edit_markup env uid mid NoKeyboard)
            (\<lambda>r w'. case r of Inl e \<Rightarrow> Q (Inl e) w'
               | Inr x \<Rightarrow> wp (modify (\<lambda>w. w\<lparr>pending_jobs := delete_pending uid (pending_jobs w)\<rparr>))
                   (\<lambda>r w'. case r of Inl e \<Rightarrow> Q (Inl e) w' | Inr x \<Rightarrow> wp (ret OkTrue) Q w') w') w1"
  proof (cases r)
    case (Inl e)
    then show ?thesis using p1 by (auto intro!: assms)
  next
    case (Inr n)
    have "wp (safe_edit_markup env uid mid NoKeyboard)
            (\<lambda>r w'. case r of Inl e \<Rightarrow> Q (Inl e) w'
               | Inr x \<Rightarrow> wp (modify (\<lambda>w. w\<lparr>pending_jobs := delete_pending uid (pending_jobs w)\<rparr>))
                   (\<lambda>r w'. case r of Inl e \<Rightarrow> Q (Inl e) w' | Inr x \<Rightarrow> wp (ret OkTrue) Q w') w') w1"
    proof (rule wp_frame [OF frame_safe_edit_markup])
      fix r2 :: "error + unit" and w2 :: world
      assume p2: "pending_jobs w2 = pending_jobs w1"
      show "case r2 of Inl e \<Rightarrow> Q (Inl e) w2
        | Inr x \<Rightarrow> wp (modify (\<lambda>w. w\<lparr>pending_jobs := delete_pending uid (pending_jobs w)\<rparr>))
                   (\<lambda>r w'. case r of Inl e \<Rightarrow> Q (Inl e) w' | Inr x \<Rightarrow> wp (ret OkTrue) Q w') w2"
        using p1 p2 by (cases r2) (auto simp: wp_modify wp_ret intro!: assms)
    qed
    with Inr show ?thesis by simp
  qed
qed

lemma skip_past_end: "int (length jobs) \<le> c \<Longrightarrow> skip_non_dict jobs c = Inr c"
  by (subst skip_non_dict.simps) simp

lemma job_next_post:
  assumes ok: "rows_ok (pending_jobs w)" and row: "row_of uid w = Some r"
  shows "wp (job_next env uid cid mid) (next_post uid r (pending_jobs w)) w"
proof -
  define rows where "rows = pending_jobs w"
  define jobs where "jobs = p_jobs r"
  define c1 where "c1 = p_cursor r + 1"
  define len where "len = int (length jobs)"
  have rin: "r \<in> set rows" "p_user r = uid"
    using find_user_in [of uid rows r] row by (simp_all add: row_of_def rows_def)
  have "in_range r" using ok rin(1) by (simp add: rows_ok_def list_all_iff rows_def)
  then have c0: "0 \<le> p_cursor r" "p_cursor r < len" by (simp_all add: in_range_def len_def jobs_def)
  have c1pos: "0 \<le> c1" "p_cursor r < c1" using c0 by (simp_all add: c1_def)
  obtain c2 where skip: "skip_non_dict jobs c1 = Inr c2" and c12: "c1 \<le> c2"
    and dict: "c2 < len \<longrightarrow> (\<exists>v. py_index jobs c2 = Some (JobDict v))"
    using skip_non_dict_result [OF c1pos(1), of jobs] by (auto simp: len_def)
  define w1 where "w1 = w\<lparr>jobs_cursor := cache_put uid c1 (jobs_cursor w)\<rparr>"
  have p1: "pending_jobs w1 = rows" by (simp add: w1_def rows_def)
  let ?Q = "next_post uid r rows"
  have main: "wp (if len \<le> c1 then jobs_exhausted env uid cid mid
             else
               seq (modify (\<lambda>w. w\<lparr>pending_jobs := update_cursor uid c1 (pending_jobs w)\<rparr>))
               (case skip_non_dict jobs c1 of
                  Inl e \<Rightarrow> throw e
                | Inr cursor2 \<Rightarrow>
                    if len \<le> cursor2 then jobs_exhausted env uid cid mid
                    else
                      seq (modify (\<lambda>w. w\<lparr>pending_jobs :=
                             update_cursor uid cursor2 (pending_jobs w)\<rparr>))
                      (seq (modify (\<lambda>w. w\<lparr>jobs_cursor := cache_put uid cursor2 (jobs_cursor w)\<rparr>))
                      (case py_index jobs cursor2 of
                         Some (JobDict job) \<Rightarrow>
                           (case format_vacancy (wordsep_split env) job of
                              Inl e \<Rightarrow> throw e
                            | Inr (caption, logo) \<Rightarrow>
                                seq (telegram env (DeleteMessage uid mid))
                                (seq (send_card env uid job caption logo)
                                (seq (telegram env (AnswerCallback cid None))
                                (ret OkTrue))))
                       | Some JobOther \<Rightarrow> throw AttributeError
                       | None \<Rightarrow> throw IndexError)))) ?Q w1"
  proof (cases "len \<le> c1")
    case True
    then have sk: "skip_non_dict jobs c1 = Inr c1" by (simp add: skip_past_end len_def)
    have "wp (jobs_exhausted env uid cid mid) ?Q w1"
      by (rule wp_jobs_exhausted)
         (use True sk p1 in \<open>auto simp: next_post_def jobs_def [symmetric] c1_def [symmetric] len_def [symmetric]\<close>)
    with True show ?thesis by simp
  next
    case False
    define w2 where "w2 = w1\<lparr>pending_jobs := update_cursor uid c1 (pending_jobs w1)\<rparr>"
    have p2: "pending_jobs w2 = update_cursor uid c1 rows" by (simp add: w2_def p1)
    have rest: "wp (if len \<le> c2 then jobs_exhausted env uid cid mid
                    else
                      seq (modify (\<lambda>w. w\<lparr>pending_jobs :=
                             update_cursor uid c2 (pending_jobs w)\<rparr>))
                      (seq (modify (\<lambda>w. w\<lparr>jobs_cursor := cache_put uid c2 (jobs_cursor w)\<rparr>))
                      (case py_index jobs c2 of
                         Some (JobDict job) \<Rightarrow>
                           (case format_vacancy (wordsep_split env) job of
                              Inl e \<Rightarrow> throw e
                            | Inr (caption, logo) \<Rightarrow>
                                seq (telegram env (DeleteMessage uid mid))
                                (seq (send_card env uid job caption logo)
                                (seq (telegram env (AnswerCallback cid None))
                                (ret OkTrue))))
                       | Some JobOther \<Rightarrow> throw AttributeError
                       | None \<Rightarrow> throw IndexError))) ?Q w2"
    proof (cases "len \<le> c2")
      case True
      have "wp (jobs_exhausted env uid cid mid) ?Q w2"
        by (rule wp_jobs_exhausted)
           (use True False skip p2 c1pos in \<open>auto simp: next_post_def jobs_def [symmetric]
              c1_def [symmetric] len_def [symmetric] delete_update intro: exI [of _ c1]\<close>)
      with True show ?thesis by simp
    next
      case c2len: False
      then obtain v where v: "py_index jobs c2 = Some (JobDict v)" using dict by auto
      define w3 where "w3 = w2\<lparr>pending_jobs := update_cursor uid c2 (pending_jobs w2)\<rparr>"
      define w4 where "w4 = w3\<lparr>jobs_cursor := cache_put uid c2 (jobs_cursor w3)\<rparr>"
      have p4: "pending_jobs w4 = update_cursor uid c2 rows"
        by (simp add: w4_def w3_def p2 update_update)
      have good: "?Q res w'" if "pending_jobs w' = pending_jobs w4" for res w'
        using that c2len skip c12 c1pos p4
        by (auto simp: next_post_def jobs_def [symmetric] c1_def [symmetric] len_def [symmetric]
            intro: exI [of _ c2])
      have tail: "wp (case format_vacancy (wordsep_split env) v of
                              Inl e \<Rightarrow> throw e
                            | Inr (caption, logo) \<Rightarrow>
                                seq (telegram env (DeleteMessage uid mid))
                                (seq (send_card env uid v caption logo)
                                (seq (telegram env (AnswerCallback cid None))
                                (ret OkTrue)))) ?Q w4"
        by (rule wp_frame)
           (auto split: sum.splits prod.splits intro!: frame_seq good)
      show ?thesis
        using c2len tail by (simp add: wp_seq wp_modify v w3_def w4_def)
    qed
    show ?thesis
      using False rest by (simp add: wp_seq wp_modify skip w2_def)
  qed
  have fnd: "find (\<lambda>r. p_user r = uid) (pending_jobs w) = Some r"
    using row by (simp add: row_of_def)
  from main [unfolded jobs_def c1_def len_def w1_def rows_def]
  show ?thesis
    unfolding job_next_def job_next_select_def job_next_resume_def wp_and_then wp_reads fnd option.case sum.case Let_def wp_seq wp_modify .
qed

lemma job_next_no_row:
  assumes "row_of uid w = None"
  shows "pending_jobs (snd (job_next env uid cid mid w)) = pending_jobs w"
proof -
  have "find (\<lambda>r. p_user r = uid) (pending_jobs w) = None"
    using assms by (simp add: row_of_def)
  then have "wp (job_next env uid cid mid) (\<lambda>res w'. pending_jobs w' = pending_jobs w) w"
    by (simp add: job_next_def job_next_select_def job_next_resume_def wp_and_then wp_reads wp_seq)
       (rule wp_frame [OF frame_telegram], simp add: wp_ret split: sum.splits)
  then show ?thesis by (simp add: wp_def)
qed

lemma wp_and_then_frame:
  assumes "frame m"
    and "\<And>e w'. pending_jobs w' = pending_jobs w \<Longrightarrow> Q (Inl e) w'"
    and "\<And>x w'. pending_jobs w' = pending_jobs w \<Longrightarrow> wp (f x) Q w'"
  shows "wp (and_then m f) Q w"
  unfolding wp_and_then
  by (rule wp_frame [OF assms(1)]) (auto split: sum.splits intro: assms(2,3))

lemma frame_next_jobs_page [simp]: "frame (next_jobs_page uid)"
  by (simp add: frame_def next_jobs_page_def save_user_setting_def Let_def split: option.splits)

lemma normalize_all_length: "normalize_all raw = Inr vs \<Longrightarrow> length vs = length raw"
  by (induction raw arbitrary: vs) (auto split: sum.splits)

lemma run_jobs_tail_frame:
  "frame (seq (modify (\<lambda>w. w\<lparr>jobs_cache := cache_put uid vacancies (jobs_cache w)\<rparr>))
       (if list_ex (\<lambda>v. py_int (v_id v) = None) vacancies then throw ValueError
        else
          seq (modify (\<lambda>w. w\<lparr>jobs_cursor := cache_put uid 0 (jobs_cursor w)\<rparr>))
          (case vacancies of
             [] \<Rightarrow> throw IndexError
           | first # _ \<Rightarrow>
               (case format_vacancy (wordsep_split env) first of
                  Inl e \<Rightarrow> throw e
                | Inr (caption, logo) \<Rightarrow> send_card env uid first caption logo))))"
  by (auto intro!: frame_seq frame_modify split: list.splits sum.splits prod.splits)

lemma run_jobs_post:
  "wp (run_jobs env uid) (\<lambda>res w'. created uid (pending_jobs w) (pending_jobs w')) w"
  unfolding run_jobs_def
proof (rule wp_and_then_frame, simp, simp add: created_def)
  fix token and w1 :: world
  assume p1: "pending_jobs w1 = pending_jobs w"
  let ?Q = "\<lambda>res w'. created uid (pending_jobs w) (pending_jobs w')"
  have same: "?Q res w'" if "pending_jobs w' = pending_jobs w" for res :: "error + unit" and w'
    using that by (simp add: created_def)
  show "wp (and_then (next_jobs_page uid) (\<lambda>page.
     and_then (reads (get_user_setting uid keyword_key)) (\<lambda>keyword.
     and_then (external HhSearchApi (HhSearch (client_token token) (or_empty keyword) page)) (\<lambda>n.
       case hh_items env n of
         None \<Rightarrow> throw UpstreamError
       | Some raw_vacs \<Rightarrow>
           if raw_vacs = [] then
             seq (telegram env (SendMessage uid msg_no_vacancies NoKeyboard)) (ret ())
           else
             (case normalize_all raw_vacs of
                Inl e \<Rightarrow> throw e
              | Inr vacancies \<Rightarrow>
                  seq (modify (\<lambda>w. w\<lparr>pending_jobs :=
                         upsert_pending uid (map JobDict vacancies) (pending_jobs w)\<rparr>))
                  (seq (modify (\<lambda>w. w\<lparr>jobs_cache := cache_put uid vacancies (jobs_cache w)\<rparr>))
                  (if list_ex (\<lambda>v. py_int (v_id v) = None) vacancies then throw ValueError
                   else
                     seq (modify (\<lambda>w. w\<lparr>jobs_cursor := cache_put uid 0 (jobs_cursor w)\<rparr>))
                     (case vacancies of
                        [] \<Rightarrow> throw IndexError
                      | first # _ \<Rightarrow>
                          (case format_vacancy (wordsep_split env) first of
                             Inl e \<Rightarrow> throw e
                           | Inr (caption, logo) \<Rightarrow> send_card env uid first caption logo))))))))) ?Q w1"
  proof (rule wp_and_then_frame, simp, simp add: p1 created_def)
    fix page and w2 :: world
    assume p2: "pending_jobs w2 = pending_jobs w1"
    show "wp (and_then (reads (get_user_setting uid keyword_key)) (\<lambda>keyword.
     and_then (external HhSearchApi (HhSearch (client_token token) (or_empty keyword) page)) (\<lambda>n.
       case hh_items env n of
         None \<Rightarrow> throw UpstreamError
       | Some raw_vacs \<Rightarrow>
           if raw_vacs = [] then
             seq (telegram env (SendMessage uid msg_no_vacancies NoKeyboard)) (ret ())
           else
             (case normalize_all raw_vacs of
                Inl e \<Rightarrow> throw e
              | Inr vacancies \<Rightarrow>
                  seq (modify (\<lambda>w. w\<lparr>pending_jobs :=
                         upsert_pending uid (map JobDict vacancies) (pending_jobs w)\<rparr>))
                  (seq (modify (\<lambda>w. w\<lparr>jobs_cache := cache_put uid vacancies (jobs_cache w)\<rparr>))
                  (if list_ex (\<lambda>v. py_int (v_id v) = None) vacancies then throw ValueError
                   else
                     seq (modify (\<lambda>w. w\<lparr>jobs_cursor := cache_put uid 0 (jobs_cursor w)\<rparr>))
                     (case vacancies of
                        [] \<Rightarrow> throw IndexError
                      | first # _ \<Rightarrow>
                          (case format_vacancy (wordsep_split env) first of
                             Inl e \<Rightarrow> throw e
                           | Inr (caption, logo) \<Rightarrow> send_card env uid first caption logo)))))))) ?Q w2"
    proof (rule wp_and_then_frame, simp, simp add: p1 p2 created_def)
      fix keyword and w3 :: world
      assume p3: "pending_jobs w3 = pending_jobs w2"
      show "wp (and_then (external HhSearchApi (HhSearch (client_token token) (or_empty keyword) page)) (\<lambda>n.
       case hh_items env n of
         None \<Rightarrow> throw UpstreamError
       | Some raw_vacs \<Rightarrow>
           if raw_vacs = [] then
             seq (telegram env (SendMessage uid msg_no_vacancies NoKeyboard)) (ret ())
           else
             (case normalize_all raw_vacs of
                Inl e \<Rightarrow> throw e
              | Inr vacancies \<Rightarrow>
                  seq (modify (\<lambda>w. w\<lparr>pending_jobs :=
                         upsert_pending uid (map JobDict vacancies) (pending_jobs w)\<rparr>))
                  (seq (modify (\<lambda>w. w\<lparr>jobs_cache := cache_put uid vacancies (jobs_cache w)\<rparr>))
                  (if list_ex (\<lambda>v. py_int (v_id v) = None) vacancies then throw ValueError
                   else
                     seq (modify (\<lambda>w. w\<lparr>jobs_cursor := cache_put uid 0 (jobs_cursor w)\<rparr>))
                     (case vacancies of
                        [] \<Rightarrow> throw IndexError
                      | first # _ \<Rightarrow>
                          (case format_vacancy (wordsep_split env) first of
                             Inl e \<Rightarrow> throw e
                           | Inr (caption, logo) \<Rightarrow> send_card env uid first caption logo))))))) ?Q w3"
      proof (rule wp_and_then_frame, simp, simp add: p1 p2 p3 created_def)
        fix n and w4 :: world
        assume p4: "pending_jobs w4 = pending_jobs w3"
        have p: "pending_jobs w4 = pending_jobs w" using p1 p2 p3 p4 by simp
        show "wp (case hh_items env n of
         None \<Rightarrow> throw UpstreamError
       | Some raw_vacs \<Rightarrow>
           if raw_vacs = [] then
             seq (telegram env (SendMessage uid msg_no_vacancies NoKeyboard)) (ret ())
           else
             (case normalize_all raw_vacs of
                Inl e \<Rightarrow> throw e
              | Inr vacancies \<Rightarrow>
                  seq (modify (\<lambda>w. w\<lparr>pending_jobs :=
                         upsert_pending uid (map JobDict vacancies) (pending_jobs w)\<rparr>))
                  (seq (modify (\<lambda>w. w\<lparr>jobs_cache := cache_put uid vacancies (jobs_cache w)\<rparr>))
                  (if list_ex (\<lambda>v. py_int (v_id v) = None) vacancies then throw ValueError
                   else
                     seq (modify (\<lambda>w. w\<lparr>jobs_cursor := cache_put uid 0 (jobs_cursor w)\<rparr>))
                     (case vacancies of
                        [] \<Rightarrow> throw IndexError
                      | first # _ \<Rightarrow>
                          (case format_vacancy (wordsep_split env) first of
                             Inl e \<Rightarrow> throw e
                           | Inr (caption, logo) \<Rightarrow> send_card env uid first caption logo)))))) ?Q w4"
        proof (cases "hh_items env n")
          case None
          then show ?thesis using p by (simp add: wp_throw created_def)
        next
          case (Some raw)
          show ?thesis
          proof (cases "raw = []")
            case True
            have "wp (seq (telegram env (SendMessage uid msg_no_vacancies NoKeyboard)) (ret ())) ?Q w4"
              by (rule wp_frame) (auto intro!: frame_seq same simp: p)
            with Some True show ?thesis by simp
          next
            case False
            show ?thesis
            proof (cases "normalize_all raw")
              case (Inl e)
              with Some False p show ?thesis by (simp add: wp_throw created_def)
            next
              case (Inr vs)
              with False normalize_all_length [OF Inr] have ne: "vs \<noteq> []" by auto
              define w5 where "w5 = w4\<lparr>pending_jobs :=
                         upsert_pending uid (map JobDict vs) (pending_jobs w4)\<rparr>"
              have p5: "pending_jobs w5 = upsert_pending uid (map JobDict vs) (pending_jobs w)"
                by (simp add: w5_def p)
              have "wp (seq (modify (\<lambda>w. w\<lparr>jobs_cache := cache_put uid vs (jobs_cache w)\<rparr>))
                  (if list_ex (\<lambda>v. py_int (v_id v) = None) vs then throw ValueError
                   else
                     seq (modify (\<lambda>w. w\<lparr>jobs_cursor := cache_put uid 0 (jobs_cursor w)\<rparr>))
                     (case vs of
                        [] \<Rightarrow> throw IndexError
                      | first # _ \<Rightarrow>
                          (case format_vacancy (wordsep_split env) first of
                             Inl e \<Rightarrow> throw e
                           | Inr (caption, logo) \<Rightarrow> send_card env uid first caption logo)))) ?Q w5"
                by (rule wp_frame [OF run_jobs_tail_frame]) (use ne p5 in \<open>auto simp: created_def\<close>)
              with Some False Inr show ?thesis
                by (simp add: wp_seq wp_modify w5_def split del: if_split)
            qed
          qed
        qed
      qed
    qed
  qed
qed

lemma preserves_frame: "frame m \<Longrightarrow> preserves m"
  by (simp add: preserves_def frame_def pending_inv_def)

lemma preserves_and_then: "preserves m \<Longrightarrow> (\<And>x. preserves (f x)) \<Longrightarrow> preserves (and_then m f)"
  by (auto simp: preserves_def and_then_def split: prod.splits sum.splits)

lemma preserves_seq: "preserves m \<Longrightarrow> preserves n \<Longrightarrow> preserves (seq m n)"
  by (simp add: seq_def preserves_and_then)

lemma preserves_finally: "preserves m \<Longrightarrow> preserves c \<Longrightarrow> preserves (finally_do m c)"
  by (auto simp: preserves_def finally_do_def split: prod.splits sum.splits)

lemma created_ok: "rows_ok rows \<Longrightarrow> created uid rows rows' \<Longrightarrow> rows_ok rows'"
  by (auto simp: created_def intro: rows_ok_upsert)

lemma next_post_ok:
  assumes "rows_ok rows" "find (\<lambda>r. p_user r = uid) rows = Some r" "next_post uid r rows res w'"
  shows "rows_ok (pending_jobs w')"
proof -
  have r: "r \<in> set rows" using find_user_in [OF assms(2)] by simp
  then have "in_range r" using assms(1) by (simp add: rows_ok_def list_all_iff)
  then have "0 \<le> p_cursor r" by (simp add: in_range_def)
  with assms show ?thesis
    by (auto simp: next_post_def intro: rows_ok_delete intro!: rows_ok_update)
qed

lemma preserves_run_jobs: "preserves (run_jobs env uid)"
  unfolding preserves_def pending_inv_def
  using run_jobs_post [of env uid] by (auto simp: wp_def intro: created_ok)

lemma preserves_job_next: "preserves (job_next env uid cid mid)"
  unfolding preserves_def pending_inv_def
proof (intro allI impI)
  fix w :: world
  assume ok: "rows_ok (pending_jobs w)"
  show "rows_ok (pending_jobs (snd (job_next env uid cid mid w)))"
  proof (cases "row_of uid w")
    case None
    then show ?thesis using ok by (simp add: job_next_no_row)
  next
    case (Some r)
    from job_next_post [OF ok Some, of env cid mid]
    have "next_post uid r (pending_jobs w) (fst (job_next env uid cid mid w))
            (snd (job_next env uid cid mid w))"
      by (simp add: wp_def)
    with ok Some show ?thesis by (auto simp: row_of_def intro: next_post_ok)
  qed
qed

lemma frame_set_pending [simp]: "frame (modify (set_pending uid f))"
  by (simp add: frame_modify set_pending_def)

lemma frame_save_setting [simp]: "frame (modify (save_user_setting uid k v))"
  by (simp add: frame_modify save_user_setting_def)

lemma frame_set_msg [simp]: "frame (modify (set_settings_msg_id uid m))"
  by (simp add: frame_modify set_settings_msg_id_def)

lemma frame_ensure_user [simp]: "frame (modify (ensure_user uid))"
  by (simp add: frame_modify ensure_user_def)

lemma preserves_store_pending: "preserves (store_pending_input env uid k text)"
  unfolding store_pending_input_def
  by (intro preserves_frame frame_seq frame_and_then) simp_all

lemma preserves_handle_command: "preserves (handle_command env uid text)"
  unfolding handle_command_def
  by (auto intro!: preserves_seq preserves_and_then preserves_run_jobs
        preserves_frame [OF frame_telegram] preserves_frame [OF frame_set_pending]
        preserves_frame [OF frame_reads] preserves_frame [OF frame_ret]
        preserves_frame [OF frame_set_msg]
      split: option.splits)

lemma preserves_handle_text: "preserves (handle_text env uid msg_id raw)"
  unfolding handle_text_def Let_def text_body_def
  by (auto intro!: preserves_seq preserves_and_then preserves_finally preserves_handle_command
        preserves_store_pending preserves_frame [OF frame_reads] preserves_frame [OF frame_ret]
        preserves_frame [OF frame_ensure_user] preserves_frame [OF frame_safe_delete]
      split: option.splits)

lemma preserves_webhook:
  assumes "fetch_vacancies env = None"
  shows "preserves (telegram_webhook env token upd)"
  unfolding telegram_webhook_def start_auto_def
  using assms
  by (auto intro!: preserves_seq preserves_run_jobs preserves_job_next preserves_handle_text
        preserves_frame [OF frame_telegram] preserves_frame [OF frame_throw]
        preserves_frame [OF frame_ret] preserves_frame [OF frame_ensure_user]
      split: update.splits button.splits)

lemma serve_inv:
  "list_all (\<lambda>(env, token, upd). fetch_vacancies env = None) reqs \<Longrightarrow> pending_inv w \<Longrightarrow>
   pending_inv (serve_in_turn reqs w)"
proof (induction reqs arbitrary: w)
  case Nil
  then show ?case by simp
next
  case (Cons q reqs)
  obtain env token upd where q: "q = (env, token, upd)" by (cases q) auto
  with Cons.prems have f: "fetch_vacancies env = None" by simp
  have "pending_inv (snd (telegram_webhook env token upd w))"
    using preserves_webhook [OF f, of token upd] Cons.prems(2) by (simp add: preserves_def)
  with Cons show ?case by (simp add: q)
qed

lemma row_of_created:
  assumes "created uid (pending_jobs w) (pending_jobs w')"
  shows "row_of uid w' = row_of uid w \<or>
    (\<exists>jobs. jobs \<noteq> [] \<and> row_of uid w' = Some \<lparr>p_user = uid, p_jobs = jobs, p_cursor = 0\<rparr>)"
proof (cases "pending_jobs w' = pending_jobs w")
  case True
  then show ?thesis by (simp add: row_of_def)
next
  case False
  with assms obtain vs where vs: "vs \<noteq> []"
    and p: "pending_jobs w' = upsert_pending uid (map JobDict vs) (pending_jobs w)"
    by (auto simp: created_def)
  let ?f = "find (\<lambda>r. p_user r = uid) (upsert_pending uid (map JobDict vs) (pending_jobs w))"
  from find_upsert [of uid "map JobDict vs" "pending_jobs w"]
  obtain r where r: "?f = Some r" "p_jobs r = map JobDict vs" "p_cursor r = 0" by auto
  have "p_user r = uid" using find_user_in [OF r(1)] by simp
  with r have "r = \<lparr>p_user = uid, p_jobs = map JobDict vs, p_cursor = 0\<rparr>" by simp
  with r(1) vs p show ?thesis by (auto simp: row_of_def)
qed

lemma row_of_next_post:
  assumes ok: "rows_ok (pending_jobs w)" and row: "row_of uid w = Some r"
    and post: "next_post uid r (pending_jobs w) res w'"
  shows "(row_of uid w' = None \<or>
          (\<exists>c. p_cursor r \<le> c \<and> c < int (length (p_jobs r)) \<and>
               row_of uid w' = Some (r\<lparr>p_cursor := c\<rparr>))) \<and>
         (\<forall>x. res = Inr x \<longrightarrow>
            (case skip_non_dict (p_jobs r) (p_cursor r + 1) of
               Inl e \<Rightarrow> False
             | Inr c' \<Rightarrow>
                 if c' < int (length (p_jobs r)) then row_of uid w' = Some (r\<lparr>p_cursor := c'\<rparr>)
                 else row_of uid w' = None))"
proof -
  have f: "find (\<lambda>r. p_user r = uid) (pending_jobs w) = Some r" using row by (simp add: row_of_def)
  have r: "r \<in> set (pending_jobs w)" using find_user_in [OF f] by simp
  then have "in_range r" using ok by (simp add: rows_ok_def list_all_iff)
  then have c: "0 \<le> p_cursor r" "p_cursor r < int (length (p_jobs r))" by (simp_all add: in_range_def)
  have rw: "\<And>v. row_of uid v = find (\<lambda>r. p_user r = uid) (pending_jobs v)"
    by (simp add: row_of_def)
  from post have A: "pending_jobs w' = pending_jobs w \<or>
       (\<exists>c. p_cursor r < c \<and> c < int (length (p_jobs r)) \<and>
            pending_jobs w' = update_cursor uid c (pending_jobs w)) \<or>
       pending_jobs w' = delete_pending uid (pending_jobs w)"
    and B: "\<forall>x. res = Inr x \<longrightarrow>
         (case skip_non_dict (p_jobs r) (p_cursor r + 1) of
            Inl e \<Rightarrow> False
          | Inr c' \<Rightarrow>
              if c' < int (length (p_jobs r))
              then pending_jobs w' = update_cursor uid c' (pending_jobs w)
              else pending_jobs w' = delete_pending uid (pending_jobs w))"
    by (simp_all add: next_post_def)
  have first: "row_of uid w' = None \<or>
          (\<exists>c. p_cursor r \<le> c \<and> c < int (length (p_jobs r)) \<and>
               row_of uid w' = Some (r\<lparr>p_cursor := c\<rparr>))"
    using A
  proof (elim disjE exE conjE)
    assume "pending_jobs w' = pending_jobs w"
    then have "row_of uid w' = Some (r\<lparr>p_cursor := p_cursor r\<rparr>)" using f by (simp add: rw)
    with c show ?thesis by blast
  next
    fix k assume "p_cursor r < k" "k < int (length (p_jobs r))"
      "pending_jobs w' = update_cursor uid k (pending_jobs w)"
    then have "p_cursor r \<le> k \<and> k < int (length (p_jobs r)) \<and>
        row_of uid w' = Some (r\<lparr>p_cursor := k\<rparr>)"
      using find_update [OF f, of k] by (simp add: rw)
    then show ?thesis by blast
  next
    assume "pending_jobs w' = delete_pending uid (pending_jobs w)"
    then show ?thesis by (simp add: rw find_delete)
  qed
  have second: "\<forall>x. res = Inr x \<longrightarrow>
            (case skip_non_dict (p_jobs r) (p_cursor r + 1) of
               Inl e \<Rightarrow> False
             | Inr c' \<Rightarrow>
                 if c' < int (length (p_jobs r)) then row_of uid w' = Some (r\<lparr>p_cursor := c'\<rparr>)
                 else row_of uid w' = None)"
  proof (intro allI impI)
    fix x assume "res = Inr x"
    with B have C: "case skip_non_dict (p_jobs r) (p_cursor r + 1) of
            Inl e \<Rightarrow> False
          | Inr c' \<Rightarrow>
              if c' < int (length (p_jobs r))
              then pending_jobs w' = update_cursor uid c' (pending_jobs w)
              else pending_jobs w' = delete_pending uid (pending_jobs w)" by blast
    show "case skip_non_dict (p_jobs r) (p_cursor r + 1) of
               Inl e \<Rightarrow> False
             | Inr c' \<Rightarrow>
                 if c' < int (length (p_jobs r)) then row_of uid w' = Some (r\<lparr>p_cursor := c'\<rparr>)
                 else row_of uid w' = None"
    proof (cases "skip_non_dict (p_jobs r) (p_cursor r + 1)")
      case (Inl e)
      with C show ?thesis by simp
    next
      case (Inr k)
      with C find_update [OF f, of k] show ?thesis
        by (auto simp: rw find_delete)
    qed
  qed
  from first second show ?thesis by blast
qed

lemma strip_html_plain: "60 \<notin> set s \<Longrightarrow> strip_html s = s"
  by (induction s) auto

lemma normalize_raw_posting: "normalize (raw_posting i) = Inr (posting i)"
  by (simp add: normalize_def raw_posting_def posting_def or_empty_def py_strip_def is_space_def
      ascii_def strip_html_plain Let_def)

lemma wp_external:
  "wp (external svc ev) Q w =
     Q (Inr (calls w svc)) (w\<lparr>trace := trace w @ [ev], calls := (calls w)(svc := Suc (calls w svc))\<rparr>)"
  by (simp add: wp_def external_def)

lemma wp_next_jobs_page:
  "wp (next_jobs_page uid) Q w = Q (fst (next_jobs_page uid w)) (snd (next_jobs_page uid w))"
  by (simp add: wp_def)

lemma next_jobs_page_keeps:
  "pending_jobs (snd (next_jobs_page uid w)) = pending_jobs w"
  "calls (snd (next_jobs_page uid w)) = calls w"
  by (simp_all add: next_jobs_page_def save_user_setting_def Let_def split: option.splits)

lemma run_jobs_creates_wp:
  assumes "fst (next_jobs_page uid w) = Inr page"
    and "hh_items env (calls w HhSearchApi) = Some raw" "raw \<noteq> []" "normalize_all raw = Inr vs"
  shows "wp (run_jobs env uid)
           (\<lambda>res w'. pending_jobs w' = upsert_pending uid (map JobDict vs) (pending_jobs w)) w"
  unfolding run_jobs_def
  apply (simp add: wp_and_then wp_reads wp_next_jobs_page wp_external next_jobs_page_keeps assms
      split del: if_split)
  apply (simp only: wp_seq wp_modify sum.case)
  apply (rule wp_frame)
   apply (auto intro!: frame_seq frame_modify split: list.splits sum.splits prod.splits)[1]
  apply (simp add: next_jobs_page_keeps)
  done


lemma run_jobs_creates:
  assumes "fst (next_jobs_page uid w) = Inr page"
    and "hh_items env (calls w HhSearchApi) = Some raw" "raw \<noteq> []" "normalize_all raw = Inr vs"
  shows "pending_jobs (snd (run_jobs env uid w)) =
           upsert_pending uid (map JobDict vs) (pending_jobs w)"
  using run_jobs_creates_wp [OF assms] by (simp add: wp_def)

lemma job_next_resume_writes_wp:
  assumes "p_cursor r + 1 < int (length (p_jobs r))"
    and "skip_non_dict (p_jobs r) (p_cursor r + 1) = Inr c" "c < int (length (p_jobs r))"
  shows "wp (job_next_resume env uid cid mid (Some r))
           (\<lambda>res w'. pending_jobs w' = update_cursor uid c (pending_jobs w)) w"
proof -
  have n1: "\<not> int (length (p_jobs r)) \<le> p_cursor r + 1" using assms(1) by simp
  have n2: "\<not> int (length (p_jobs r)) \<le> c" using assms(3) by simp
  show ?thesis
    unfolding job_next_resume_def
    apply (simp add: Let_def wp_seq wp_modify assms(2) n1 n2 split del: if_split)
    apply (rule wp_frame)
     apply (auto intro!: frame_seq split: option.splits job_entry.splits sum.splits prod.splits)[1]
    apply (simp add: update_update)
    done
qed

lemma job_next_resume_writes:
  assumes "p_cursor r + 1 < int (length (p_jobs r))"
    and "skip_non_dict (p_jobs r) (p_cursor r + 1) = Inr c" "c < int (length (p_jobs r))"
  shows "pending_jobs (snd (job_next_resume env uid cid mid (Some r) w)) =
           update_cursor uid c (pending_jobs w)"
  using job_next_resume_writes_wp [OF assms] by (simp add: wp_def)

lemma start_manual_creates:
  assumes "tg_outcome_of env (calls w Telegram) = TgOk"
    and "fst (next_jobs_page uid w) = Inr page"
    and "hh_items env (calls w HhSearchApi) = Some raw" "raw \<noteq> []" "normalize_all raw = Inr vs"
  shows "pending_jobs (snd (telegram_webhook env (bot_token env)
            (CallbackQuery uid cid mid StartManual) w)) =
           upsert_pending uid (map JobDict vs) (pending_jobs w)"
proof -
  define w1 where "w1 = (ensure_user uid w)\<lparr>trace := trace (ensure_user uid w) @ [AnswerCallback cid None],
      calls := (calls (ensure_user uid w))(Telegram := Suc (calls (ensure_user uid w) Telegram))\<rparr>"
  have c: "calls (ensure_user uid w) = calls w" "pending_jobs (ensure_user uid w) = pending_jobs w"
    by (simp_all add: ensure_user_def)
  have n: "fst (next_jobs_page uid w1) = Inr page"
    using assms(2)
    by (simp add: w1_def next_jobs_page_def get_user_setting_def ensure_user_def Let_def
        split: option.splits if_splits)
  have h: "hh_items env (calls w1 HhSearchApi) = Some raw"
    using assms(3) by (simp add: w1_def c)
  have "snd (telegram_webhook env (bot_token env) (CallbackQuery uid cid mid StartManual) w) =
        snd (run_jobs env uid w1)"
    using assms(1)
    by (simp add: telegram_webhook_def seq_def and_then_def modify_def telegram_def external_def
        ret_def w1_def c split: prod.splits sum.splits)
  then show ?thesis
    using run_jobs_creates [OF n h assms(4,5)] by (simp add: w1_def c)
qed


lemma start_manual_world:
  assumes "tg_outcome_of env (calls w Telegram) = TgOk"
  shows "snd (telegram_webhook env (bot_token env) (CallbackQuery uid cid mid StartManual) w) =
         snd (run_jobs env uid
               ((ensure_user uid w)\<lparr>trace := trace (ensure_user uid w) @ [AnswerCallback cid None],
                  calls := (calls (ensure_user uid w))(Telegram := Suc (calls (ensure_user uid w) Telegram))\<rparr>))"
proof -
  have c: "calls (ensure_user uid w) = calls w" by (simp add: ensure_user_def)
  show ?thesis
    using assms
    by (simp add: telegram_webhook_def seq_def and_then_def modify_def telegram_def external_def
        ret_def c split: prod.splits sum.splits)
qed

lemma run_jobs_settings:
  "user_settings (snd (run_jobs env uid w)) = user_settings (snd (next_jobs_page uid w))"
  by (simp add: run_jobs_def and_then_def seq_def reads_def external_def modify_def telegram_def
      throw_def ret_def send_card_def
      split: prod.splits sum.splits option.splits list.splits tg_outcome.splits if_splits)


lemma row_of_upsert:
  "find (\<lambda>r. p_user r = uid) (upsert_pending uid jobs rows) =
     Some \<lparr>p_user = uid, p_jobs = jobs, p_cursor = 0\<rparr>"
proof (cases "uid \<in> set (map p_user rows)")
  case False
  then have "find (\<lambda>r. p_user r = uid) rows = None" by (simp add: find_user_none)
  with False show ?thesis by (simp add: upsert_pending_def find_app)
next
  case True
  then show ?thesis
    by (induction rows) (auto simp: upsert_pending_def)
qed

lemma searching_simps:
  "hh_items (searching items) n = Some items"
  "tg_outcome_of (searching items) n = TgOk"
  "bot_token (searching items) = ascii ''T''"
  "fetch_vacancies (searching items) = None"
  by (simp_all add: searching_def env1_def)

lemma next_jobs_page_world1: "next_jobs_page 1 world1 =
    (Inr 0, save_user_setting 1 jobs_page_key (py_str_int 1) world1)"
  by (rule next_jobs_page_fresh)
     (simp add: world1_def get_user_setting_def select_value_def row_is_def resume_key_def
        jobs_page_key_def ascii_def)

lemma pending_one_found:
  "pending_jobs one_found = [\<lparr>p_user = 1, p_jobs = [JobDict (posting 2)], p_cursor = 0\<rparr>]"
proof -
  have "pending_jobs one_found =
      upsert_pending 1 (map JobDict [posting 2]) (pending_jobs world1)"
    unfolding one_found_def
    by (rule run_jobs_creates [of 1 world1 0 _ "[raw_posting 2]"])
       (simp_all add: next_jobs_page_world1 searching_simps normalize_raw_posting)
  then show ?thesis by (simp add: upsert_pending_def world1_def)
qed

lemma pending_two_found:
  "pending_jobs two_found =
     [\<lparr>p_user = 1, p_jobs = [JobDict (posting 0), JobDict (posting 1)], p_cursor = 0\<rparr>]"
proof -
  have "pending_jobs two_found =
      upsert_pending 1 (map JobDict [posting 0, posting 1]) (pending_jobs world1)"
    unfolding two_found_def
    using start_manual_creates [of "searching [raw_posting 0, raw_posting 1]" world1 1 0
        "[raw_posting 0, raw_posting 1]" "[posting 0, posting 1]" "ascii ''q''" 5]
    by (simp add: next_jobs_page_world1 searching_simps normalize_raw_posting)
  then show ?thesis by (simp add: upsert_pending_def world1_def)
qed

lemma settings_two_found:
  "get_user_setting 1 jobs_page_key two_found = Some (py_str_int 1)"
proof -
  have "tg_outcome_of (searching [raw_posting 0, raw_posting 1]) (calls world1 Telegram) = TgOk"
    by (simp add: searching_simps)
  from start_manual_world [OF this, of 1 "ascii ''q''" 5]
  have "user_settings two_found =
      user_settings (save_user_setting 1 jobs_page_key (py_str_int 1) world1)"
    unfolding two_found_def
    apply (simp add: searching_simps run_jobs_settings)
    apply (simp add: next_jobs_page_def get_user_setting_def ensure_user_def world1_def
        select_value_def row_is_def resume_key_def jobs_page_key_def save_user_setting_def
        ascii_def Let_def)
    done
  then have "get_user_setting 1 jobs_page_key two_found =
      get_user_setting 1 jobs_page_key (save_user_setting 1 jobs_page_key (py_str_int 1) world1)"
    by (simp add: get_user_setting_def)
  then show ?thesis by (simp add: get_save_same)
qed

section \<open>Lemmas about wrapping\<close>

declare wrap_chunks.simps [simp del]

lemma expandtabs_plain: "9 \<notin> set s \<Longrightarrow> 10 \<notin> set s \<Longrightarrow> 13 \<notin> set s \<Longrightarrow> expandtabs col s = s"
  by (induction s arbitrary: col) auto

lemma munge_plain: "\<forall>c\<in>set s. \<not> is_ws c \<Longrightarrow> munge_whitespace s = s"
proof -
  assume a: "\<forall>c\<in>set s. \<not> is_ws c"
  then have "9 \<notin> set s" "10 \<notin> set s" "13 \<notin> set s" by (auto simp: is_ws_def)
  then have "expandtabs 0 s = s" by (rule expandtabs_plain)
  with a show ?thesis by (simp add: munge_whitespace_def map_idI)
qed

lemma split_runs_word: "n > 0 \<Longrightarrow> \<not> is_ws c \<Longrightarrow> split_runs (replicate n c) = [replicate n c]"
proof (induction n)
  case 0
  then show ?case by simp
next
  case (Suc n)
  then show ?case by (cases n) auto
qed

lemma rfind_hyphen_none: "45 \<notin> set s \<Longrightarrow> rfind_hyphen s = None"
proof -
  assume "45 \<notin> set s"
  then have "\<forall>x\<in>set (rev s). x \<noteq> 45" by auto
  then have "dropWhile (\<lambda>x. x \<noteq> 45) (rev s) = []" by (simp only: dropWhile_eq_Nil_conv)
  then show ?thesis by (simp only: rfind_hyphen_def list.case)
qed

lemma not_blank_word: "n > 0 \<Longrightarrow> \<not> is_space c \<Longrightarrow> \<not> is_blank (replicate n c)"
  by (cases n) (auto simp: is_blank_def)

lemma next_line_long_word:
  assumes "60 < n" "c \<noteq> 45" "\<not> is_space c"
  shows "next_line 60 started [replicate n c] = (Some (replicate 60 c), [replicate (n - 60) c])"
proof -
  have nb: "\<not> is_blank (replicate n c)" "\<not> is_blank (replicate 60 c)"
    using assms by (simp_all add: not_blank_word)
  have h: "rfind_hyphen (replicate 60 c) = None"
    using assms by (intro rfind_hyphen_none) auto
  have m: "min n 60 = 60" using assms by simp
  show ?thesis
    using assms nb
    by (simp add: next_line_def Let_def handle_long_word_def h m)
qed

lemma next_line_short_word:
  assumes "0 < n" "n \<le> 60" "\<not> is_space c"
  shows "next_line 60 started [replicate n c] = (Some (replicate n c), [])"
  using assms not_blank_word [of n c]
  by (simp add: next_line_def Let_def)

lemma wrap_long_word:
  assumes "c \<noteq> 45" "\<not> is_space c"
  shows "wrap_chunks 60 started [replicate (60 * Suc k) c] = replicate (Suc k) (replicate 60 c)"
proof (induction k arbitrary: started)
  case 0
  have "next_line 60 started [replicate 60 c] = (Some (replicate 60 c), [])"
    using assms by (intro next_line_short_word) simp_all
  then show ?case
    by (subst wrap_chunks.simps) (simp add: wrap_chunks.simps [of _ _ "[]"])
next
  case (Suc k)
  have "60 * Suc (Suc k) - 60 = 60 * Suc k" by simp
  then have nl: "next_line 60 started [replicate (60 * Suc (Suc k)) c] =
      (Some (replicate 60 c), [replicate (60 * Suc k) c])"
    using next_line_long_word [of "60 * Suc (Suc k)" c started] assms by simp
  have "wrap_chunks 60 started [replicate (60 * Suc (Suc k)) c] =
      replicate 60 c # wrap_chunks 60 True [replicate (60 * Suc k) c]"
    by (subst wrap_chunks.simps) (simp only: nl fst_conv snd_conv option.case list.distinct if_False)
  also have "\<dots> = replicate 60 c # replicate (Suc k) (replicate 60 c)"
    by (simp only: Suc.IH)
  also have "\<dots> = replicate (Suc (Suc k)) (replicate 60 c)"
    by (simp only: replicate.simps)
  finally show ?case .
qed

lemma length_join_lines:
  "length (py_join [10] (replicate (Suc k) l)) = Suc k * length l + k"
proof (induction k)
  case 0
  then show ?case by simp
next
  case (Suc k)
  have "replicate (Suc (Suc k)) l = l # l # replicate k l" by simp
  then have "py_join [10] (replicate (Suc (Suc k)) l) = l @ [10] @ py_join [10] (replicate (Suc k) l)"
    by simp
  with Suc show ?case by simp
qed

lemma wrap_long_letters:
  assumes "c \<noteq> 45" "\<not> is_space c"
  shows "length (wrap_long split_runs (replicate (60 * Suc k) c)) = 60 * Suc k + k"
proof -
  have nw: "\<not> is_ws c" using assms(2) by (auto simp: is_ws_def is_space_def)
  then have m: "munge_whitespace (replicate (60 * Suc k) c) = replicate (60 * Suc k) c"
    by (intro munge_plain) simp
  have s: "split_runs (replicate (60 * Suc k) c) = [replicate (60 * Suc k) c]"
    using nw by (intro split_runs_word) simp_all
  have f: "filter (\<lambda>x. x \<noteq> []) [replicate (60 * Suc k) c] = [replicate (60 * Suc k) c]"
    by simp
  show ?thesis
    unfolding wrap_long_def textwrap_wrap_def m s f wrap_long_word [OF assms] length_join_lines
    by simp
qed

lemma fill_line_len: "n \<le> w \<Longrightarrow> n + length (concat (fst (fill_line w n cs))) \<le> w"
proof (induction cs arbitrary: n)
  case Nil
  then show ?case by simp
next
  case (Cons c cs)
  show ?case
  proof (cases "n + length c \<le> w")
    case True
    from Cons.IH [OF True]
    have "n + length c + length (concat (fst (fill_line w (n + length c) cs))) \<le> w" .
    with True show ?thesis by (simp add: case_prod_beta)
  next
    case False
    with Cons.prems show ?thesis by simp
  qed
qed

lemma rfind_hyphen_bound: "rfind_hyphen s = Some h \<Longrightarrow> h < length s"
proof -
  assume a: "rfind_hyphen s = Some h"
  then obtain x before where d: "dropWhile (\<lambda>x. x \<noteq> 45) (rev s) = x # before" and h: "h = length before"
    by (auto simp: rfind_hyphen_def split: list.splits)
  have "length (dropWhile (\<lambda>x. x \<noteq> 45) (rev s)) \<le> length (rev s)" by (rule length_dropWhile_le)
  with d h show ?thesis by simp
qed

lemma handle_long_word_piece:
  assumes "1 \<le> w" "n \<le> w"
  shows "length (fst (handle_long_word w n c)) \<le> w - n"
proof -
  have "h + 1 \<le> w - n" if "rfind_hyphen (take (w - n) c) = Some h" for h
    using rfind_hyphen_bound [OF that] by simp
  then show ?thesis
    using assms by (auto simp: handle_long_word_def Let_def split: option.splits)
qed

lemma handle_long_word_parts: "fst (handle_long_word w n c) @ snd (handle_long_word w n c) = c"
  by (simp add: handle_long_word_def Let_def)

lemma length_concat_butlast: "length (concat (butlast xs)) \<le> length (concat xs)"
  by (induction xs) auto

lemma next_line_len:
  assumes "1 \<le> w" "fst (next_line w started chunks) = Some l"
  shows "length l \<le> w"
proof -
  define chunks1 where "chunks1 = (if chunks \<noteq> [] \<and> is_blank (hd chunks) \<and> started then tl chunks else chunks)"
  define taken where "taken = fst (fill_line w 0 chunks1)"
  define rest where "rest = snd (fill_line w 0 chunks1)"
  define cur where "cur = (case rest of
                   [] \<Rightarrow> (taken, rest)
                 | c # cs \<Rightarrow>
                     if length c > w then
                       (let cutc = handle_long_word w (length (concat taken)) c
                        in (taken @ [fst cutc], snd cutc # cs))
                     else (taken, rest))"
  have t: "length (concat taken) \<le> w" using fill_line_len [of 0 w chunks1] by (simp add: taken_def)
  have c: "length (concat (fst cur)) \<le> w"
  proof (cases rest)
    case Nil
    then show ?thesis using t by (simp add: cur_def)
  next
    case (Cons c cs)
    show ?thesis
    proof (cases "length c > w")
      case True
      with Cons have "fst cur = taken @ [fst (handle_long_word w (length (concat taken)) c)]"
        by (simp add: cur_def Let_def)
      with handle_long_word_piece [OF assms(1) t, of c] t show ?thesis by simp
    next
      case False
      with Cons t show ?thesis by (simp add: cur_def)
    qed
  qed
  define cur_line where "cur_line = (if fst cur \<noteq> [] \<and> is_blank (last (fst cur)) then butlast (fst cur)
                      else fst cur)"
  have nl: "next_line w started chunks = (if cur_line \<noteq> [] then Some (concat cur_line) else None, snd cur)"
    unfolding next_line_def Let_def cur_line_def cur_def rest_def taken_def chunks1_def
    by (rule refl)
  have "l = concat cur_line" using assms(2) by (simp add: nl split: if_splits)
  then have "l = concat (fst cur) \<or> l = concat (butlast (fst cur))"
    by (simp add: cur_line_def)
  with c length_concat_butlast [of "fst cur"] show ?thesis by auto
qed

lemma wrap_chunks_len:
  "1 \<le> w \<Longrightarrow> list_all (\<lambda>l. length l \<le> w) (wrap_chunks w started chunks)"
proof (induction w started chunks rule: wrap_chunks.induct)
  case (1 w started chunks)
  show ?case
  proof (cases "chunks = []")
    case True
    then show ?thesis by (subst wrap_chunks.simps) simp
  next
    case False
    show ?thesis
    proof (cases "fst (next_line w started chunks)")
      case None
      with False 1(1) [OF False None 1(3)] show ?thesis
        by (subst wrap_chunks.simps) simp
    next
      case (Some l)
      with False 1(2) [OF False Some 1(3)] next_line_len [OF 1(3) Some] show ?thesis
        by (subst wrap_chunks.simps) simp
    qed
  qed
qed

lemma ink_append: "ink (a @ b) = ink a @ ink b"
  by (simp add: ink_def)

lemma ink_Nil [simp]: "ink [] = []"
  by (simp add: ink_def)

lemma ink_blank: "is_blank c \<Longrightarrow> ink c = []"
  by (simp add: ink_def is_blank_def list_all_iff)

lemma ink_concat_butlast: "xs \<noteq> [] \<Longrightarrow> is_blank (last xs) \<Longrightarrow> ink (concat (butlast xs)) = ink (concat xs)"
proof -
  assume a: "xs \<noteq> []" "is_blank (last xs)"
  then have "xs = butlast xs @ [last xs]" by simp
  then have "concat xs = concat (butlast xs) @ last xs" by (metis concat.simps concat_append append_Nil2)
  with a(2) show ?thesis by (simp add: ink_append ink_blank)
qed

lemma next_line_ink:
  "ink (case fst (next_line w started chunks) of None \<Rightarrow> [] | Some l \<Rightarrow> l) @
   ink (concat (snd (next_line w started chunks))) = ink (concat chunks)"
proof -
  define chunks1 where "chunks1 = (if chunks \<noteq> [] \<and> is_blank (hd chunks) \<and> started then tl chunks else chunks)"
  define taken where "taken = fst (fill_line w 0 chunks1)"
  define rest where "rest = snd (fill_line w 0 chunks1)"
  define cur where "cur = (case rest of
                   [] \<Rightarrow> (taken, rest)
                 | c # cs \<Rightarrow>
                     if length c > w then
                       (let cutc = handle_long_word w (length (concat taken)) c
                        in (taken @ [fst cutc], snd cutc # cs))
                     else (taken, rest))"
  define cur_line where "cur_line = (if fst cur \<noteq> [] \<and> is_blank (last (fst cur)) then butlast (fst cur)
                      else fst cur)"
  have c1: "ink (concat chunks1) = ink (concat chunks)"
    by (cases chunks) (auto simp: chunks1_def ink_append ink_blank)
  have sp: "chunks1 = taken @ rest"
    by (rule fill_line_split [of w 0]) (simp add: taken_def rest_def)
  have c2: "concat (fst cur) @ concat (snd cur) = concat chunks1"
  proof (cases rest)
    case Nil
    then show ?thesis by (simp add: cur_def sp)
  next
    case (Cons c cs)
    have hp: "fst (handle_long_word w (length (concat taken)) c) @
        snd (handle_long_word w (length (concat taken)) c) @ x = c @ x" for x
      using handle_long_word_parts [of w "length (concat taken)" c]
      by (metis append_assoc)
    from Cons show ?thesis
      by (simp add: cur_def sp Let_def hp)
  qed
  have c3: "ink (concat cur_line) = ink (concat (fst cur))"
    by (simp add: cur_line_def ink_concat_butlast)
  have nl: "next_line w started chunks = (if cur_line \<noteq> [] then Some (concat cur_line) else None, snd cur)"
    unfolding next_line_def Let_def cur_line_def cur_def rest_def taken_def chunks1_def
    by (rule refl)
  have "ink (case fst (next_line w started chunks) of None \<Rightarrow> [] | Some l \<Rightarrow> l) = ink (concat cur_line)"
    by (simp add: nl ink_def)
  then show ?thesis
    using c1 c2 c3 by (simp add: nl flip: ink_append)
qed

lemma wrap_chunks_ink: "ink (concat (wrap_chunks w started chunks)) = ink (concat chunks)"
proof (induction w started chunks rule: wrap_chunks.induct)
  case (1 w started chunks)
  show ?case
  proof (cases "chunks = []")
    case True
    then show ?thesis by (subst wrap_chunks.simps) simp
  next
    case False
    show ?thesis
    proof (cases "fst (next_line w started chunks)")
      case None
      with False 1(1) [OF False None] next_line_ink [of w started chunks] show ?thesis
        by (subst wrap_chunks.simps) simp
    next
      case (Some l)
      with False 1(2) [OF False Some] next_line_ink [of w started chunks] show ?thesis
        by (subst wrap_chunks.simps) (simp add: ink_append)
    qed
  qed
qed

lemma is_space_32: "is_space 32"
  by (simp add: is_space_def)

lemma is_space_9: "is_space 9"
  by (simp add: is_space_def)

lemma is_space_10: "is_space 10"
  by (simp add: is_space_def)

lemma ink_spaces: "ink (replicate n 32) = []"
  by (induction n) (simp_all add: ink_def is_space_32)

lemma ink_Cons: "ink (c # s) = (if is_space c then ink s else c # ink s)"
  by (simp add: ink_def)

lemma ink_join: "ink (py_join [10] ls) = ink (concat ls)"
proof (induction ls)
  case Nil
  then show ?case by simp
next
  case (Cons l ls)
  show ?case
  proof (cases ls)
    case Nil
    then show ?thesis by simp
  next
    case (Cons m ms)
    have "ink (py_join [10] (l # m # ms)) = ink l @ ink (py_join [10] (m # ms))"
      by (simp add: ink_append ink_Cons is_space_10)
    also have "\<dots> = ink l @ ink (concat (m # ms))"
      using Cons.IH Cons by simp
    finally show ?thesis using Cons by (simp add: ink_append)
  qed
qed

lemma ws_is_space: "is_ws c \<Longrightarrow> is_space c"
  by (auto simp: is_ws_def is_space_def)

lemma ink_expandtabs: "ink (expandtabs col s) = ink s"
proof (induction s arbitrary: col)
  case Nil
  then show ?case by simp
next
  case (Cons c cs)
  show ?case
  proof (cases "c = 9")
    case True
    then show ?thesis
      by (simp add: ink_append ink_spaces ink_Cons is_space_9 Cons.IH)
  next
    case False
    then show ?thesis
      by (simp add: ink_Cons Cons.IH)
  qed
qed

lemma ink_munge: "ink (munge_whitespace s) = ink s"
proof -
  have "ink (map (\<lambda>c. if is_ws c then 32 else c) t) = ink t" for t
    by (induction t) (simp_all add: ink_Cons ws_is_space is_space_32)
  then show ?thesis by (simp add: munge_whitespace_def ink_expandtabs)
qed

lemma concat_filter_nonempty: "concat (filter (\<lambda>c. c \<noteq> []) xs) = concat xs"
  by (induction xs) auto

lemma wrap_long_ink:
  assumes "\<And>t. concat (split t) = t"
  shows "ink (wrap_long split text) = ink text"
  by (simp add: wrap_long_def textwrap_wrap_def ink_join wrap_chunks_ink concat_filter_nonempty
      assms ink_munge)

lemma wrap_long_lines:
  "list_all (\<lambda>l. length l \<le> 60) (textwrap_wrap split 60 text)"
  by (simp add: textwrap_wrap_def wrap_chunks_len)

lemma concat_split_runs: "concat (split_runs t) = t"
proof (induction t)
  case Nil
  then show ?case by simp
next
  case (Cons c cs)
  consider "split_runs cs = []" | rest where "split_runs cs = [] # rest"
    | d ds rest where "split_runs cs = (d # ds) # rest"
    by (cases "split_runs cs"; cases "hd (split_runs cs)") simp_all
  then show ?case
  proof cases
    case 1
    from Cons.IH have "cs = []" unfolding 1 by simp
    moreover have "split_runs (c # cs) = [[c]]" by (simp add: 1)
    ultimately show ?thesis by simp
  next
    case (2 rest)
    from Cons.IH have e: "concat ([] # rest) = cs" unfolding 2 .
    have s: "split_runs (c # cs) = [c] # rest" by (simp add: 2)
    show ?thesis unfolding s using e by simp
  next
    case (3 d ds rest)
    from Cons.IH have e: "concat ((d # ds) # rest) = cs" unfolding 3 .
    have s: "split_runs (c # cs) =
        (if is_ws c = is_ws d then (c # d # ds) # rest else [c] # (d # ds) # rest)"
      by (simp add: 3)
    show ?thesis unfolding s using e by auto
  qed
qed

lemma raw_described: "raw_description (described d) = d"
  by (simp add: raw_description_def described_def posting_def or_empty_def)

lemma not_space_a: "\<not> is_space 97"
  by (simp add: is_space_def)

lemma format_descr_letters:
  assumes "1200 \<le> n"
  shows "format_descr split_runs (described (replicate n 97)) =
    wrap_long split_runs (replicate 1200 97) @ (if 1200 < n then [ellipsis] else [])"
proof -
  have s: "strip_html (replicate n 97) = replicate n 97"
    by (rule strip_html_plain) simp
  have m: "min 1200 n = 1200" using assms by simp
  show ?thesis
    by (simp add: format_descr_def raw_described s m Let_def)
qed

section \<open>Settings: write twice, read once\<close>

text \<open>
  C8. For every user, key and values \<open>v1\<close> then \<open>v2\<close>, in every store: after
  \<^verbatim>\<open>save_user_setting\<close> of \<open>v1\<close> the setting reads back \<open>v1\<close>; after a second
  \<^verbatim>\<open>save_user_setting\<close> of \<open>v2\<close> for the same user and key the table holds exactly one
  row for that pair and \<^verbatim>\<open>get_user_setting\<close> returns \<open>v2\<close>.
\<close>

theorem save_user_setting_overwrites:
  "get_user_setting uid k (save_user_setting uid k v1 st) = Some v1 \<and>
   length (filter (row_is uid k)
     (user_settings (save_user_setting uid k v2 (save_user_setting uid k v1 st)))) = 1 \<and>
   get_user_setting uid k (save_user_setting uid k v2 (save_user_setting uid k v1 st)) = Some v2"
  by (simp add: get_save_same) (simp add: save_user_setting_def count_insert_same)

section \<open>The page counter cycles through 0..19\<close>

text \<open>
  C6. A call of \<^verbatim>\<open>next_jobs_page\<close> for a user with no \<^verbatim>\<open>jobs_page\<close> setting returns 0
  and stores 1; a call that finds the counter \<open>p\<close> stored returns \<open>p\<close> and stores
  \<open>p + 1\<close> when \<open>p < 19\<close> and 0 otherwise; and 21 successive calls for a user with no
  \<^verbatim>\<open>jobs_page\<close> setting return 0, 1, ..., 19, 0.
\<close>

theorem next_jobs_page_cycles:
  "(get_user_setting uid jobs_page_key st = None \<longrightarrow>
      fst (next_jobs_page uid st) = Inr 0 \<and>
      get_user_setting uid jobs_page_key (snd (next_jobs_page uid st)) = Some (py_str_int 1) \<and>
      fst (advance_times 21 uid st) =
        map Inr [0, 1, 2, 3, 4, 5, 6, 7, 8, 9, 10, 11, 12, 13, 14, 15, 16, 17, 18, 19, 0]) \<and>
   (get_user_setting uid jobs_page_key st2 = Some (py_str_int p) \<longrightarrow>
      fst (next_jobs_page uid st2) = Inr p \<and>
      get_user_setting uid jobs_page_key (snd (next_jobs_page uid st2)) =
        Some (py_str_int (if p < 19 then p + 1 else 0)))"
proof (intro conjI impI)
  assume fresh: "get_user_setting uid jobs_page_key st = None"
  let ?st = "save_user_setting uid jobs_page_key (py_str_int 1) st"
  have step: "next_jobs_page uid st = (Inr 0, ?st)"
    using fresh by (rule next_jobs_page_fresh)
  show "fst (next_jobs_page uid st) = Inr 0" by (simp add: step)
  show "get_user_setting uid jobs_page_key (snd (next_jobs_page uid st)) = Some (py_str_int 1)"
    by (simp add: step get_save_same)
  have rest: "fst (advance_times 20 uid ?st) = map (\<lambda>k. Inr ((1 + int k) mod 20)) [0..<20]"
    by (rule advance_times_cycle [OF get_save_same]) simp_all
  have n21: "(21::nat) = Suc 20" by simp
  have "fst (advance_times 21 uid st) = Inr 0 # fst (advance_times 20 uid ?st)"
    unfolding n21 advance_times.simps step by (simp split: prod.splits)
  also have "\<dots> = Inr 0 # map (\<lambda>k. Inr ((1 + int k) mod 20)) [0..<20]"
    by (simp only: rest)
  also have "\<dots> =
      map Inr [0, 1, 2, 3, 4, 5, 6, 7, 8, 9, 10, 11, 12, 13, 14, 15, 16, 17, 18, 19, 0]"
    by (simp add: upt_rec)
  finally show "fst (advance_times 21 uid st) =
      map Inr [0, 1, 2, 3, 4, 5, 6, 7, 8, 9, 10, 11, 12, 13, 14, 15, 16, 17, 18, 19, 0]" .
next
  assume stored: "get_user_setting uid jobs_page_key st2 = Some (py_str_int p)"
  have step: "next_jobs_page uid st2 =
      (Inr p, save_user_setting uid jobs_page_key (py_str_int (if p < 19 then p + 1 else 0)) st2)"
    using stored by (rule next_jobs_page_stored)
  show "fst (next_jobs_page uid st2) = Inr p" by (simp add: step)
  show "get_user_setting uid jobs_page_key (snd (next_jobs_page uid st2)) =
      Some (py_str_int (if p < 19 then p + 1 else 0))"
    by (simp only: step snd_conv get_save_same)
qed

theorem next_jobs_page_cycles_witness:
  "get_user_setting 7 jobs_page_key \<lparr>user_settings = []\<rparr> = None \<and>
   fst (advance_times 21 7 \<lparr>user_settings = []\<rparr>) =
     map Inr [0, 1, 2, 3, 4, 5, 6, 7, 8, 9, 10, 11, 12, 13, 14, 15, 16, 17, 18, 19, 0] \<and>
   get_user_setting 7 jobs_page_key
     \<lparr>user_settings = [\<lparr>s_user = 7, s_key = jobs_page_key, s_value = Some (py_str_int 19)\<rparr>]\<rparr>
     = Some (py_str_int 19) \<and>
   fst (next_jobs_page 7
     \<lparr>user_settings = [\<lparr>s_user = 7, s_key = jobs_page_key, s_value = Some (py_str_int 19)\<rparr>]\<rparr>)
     = Inr 19 \<and>
   get_user_setting 7 jobs_page_key (snd (next_jobs_page 7
     \<lparr>user_settings = [\<lparr>s_user = 7, s_key = jobs_page_key, s_value = Some (py_str_int 19)\<rparr>]\<rparr>))
     = Some (py_str_int 0)"
proof -
  have a: "get_user_setting 7 jobs_page_key \<lparr>user_settings = []\<rparr> = None"
    by (simp add: get_user_setting_def select_value_def)
  have b: "get_user_setting 7 jobs_page_key
     \<lparr>user_settings = [\<lparr>s_user = 7, s_key = jobs_page_key, s_value = Some (py_str_int 19)\<rparr>]\<rparr>
     = Some (py_str_int 19)"
    by (simp add: get_user_setting_def select_value_def row_is_def)
  show ?thesis
    using a b next_jobs_page_cycles [of 7 "\<lparr>user_settings = []\<rparr>"
      "\<lparr>user_settings = [\<lparr>s_user = 7, s_key = jobs_page_key, s_value = Some (py_str_int 19)\<rparr>]\<rparr>" 19]
    by simp
qed

section \<open>Toggling a multi-value setting twice\<close>

text \<open>
  C9 (as amended). For every user, multi-value key and value that holds no comma and no
  whitespace at either end (as every suggested value does), and whatever the order in which
  the set is written: applying \<^verbatim>\<open>toggle_multi_value\<close> twice with the same value leaves the
  stored set of selected values as it was.
\<close>

theorem toggle_twice_restores:
  assumes "\<And>xs. set (order xs) = set xs" and "44 \<notin> set v" and "py_strip v = v"
  shows "selected_values uid k
           (snd (toggle_multi_value order uid k v (snd (toggle_multi_value order uid k v st))))
         = selected_values uid k st"
proof -
  have v: "clean v" using assms by (simp add: clean_def)
  have ne: "[] \<notin> selected_values uid k st"
    using parse_items_clean by (auto simp: selected_values_def)
  show ?thesis
    using ne by (auto simp: toggle_selected [OF assms(1) v] split: if_splits)
qed

theorem toggle_twice_restores_witness:
  "(\<forall>xs :: ustr list. set (rev xs) = set xs) \<and>
   44 \<notin> set (ascii ''office'') \<and> py_strip (ascii ''office'') = ascii ''office'' \<and>
   selected_values 1 (ascii ''work_format'')
     (snd (toggle_multi_value rev 1 (ascii ''work_format'') (ascii ''office'')
        (snd (toggle_multi_value rev 1 (ascii ''work_format'') (ascii ''office'')
           \<lparr>user_settings = []\<rparr>))))
   = selected_values 1 (ascii ''work_format'') \<lparr>user_settings = []\<rparr>"
proof -
  have a: "44 \<notin> set (ascii ''office'')" by (simp add: ascii_def)
  have b: "py_strip (ascii ''office'') = ascii ''office''"
    by (simp add: ascii_def py_strip_def is_space_def)
  show ?thesis
    using a b toggle_twice_restores [of rev "ascii ''office''" 1 "ascii ''work_format''"
        "\<lparr>user_settings = []\<rparr>"]
    by simp
qed

text \<open>
  As stated for every value, C9 fails: a value with a comma is read back as two values, and
  a value with a leading blank is read back without it, so the second toggle adds where it
  should remove.
\<close>

theorem toggle_twice_counterexample:
  "selected_values 1 (ascii ''schedule'')
     (snd (toggle_multi_value (\<lambda>xs. xs) 1 (ascii ''schedule'') (ascii ''a,b'')
        (snd (toggle_multi_value (\<lambda>xs. xs) 1 (ascii ''schedule'') (ascii ''a,b'')
           \<lparr>user_settings = []\<rparr>))))
   \<noteq> selected_values 1 (ascii ''schedule'') \<lparr>user_settings = []\<rparr> \<and>
   selected_values 1 (ascii ''schedule'')
     (snd (toggle_multi_value (\<lambda>xs. xs) 1 (ascii ''schedule'') (ascii '' x'')
        (snd (toggle_multi_value (\<lambda>xs. xs) 1 (ascii ''schedule'') (ascii '' x'')
           \<lparr>user_settings = []\<rparr>))))
   \<noteq> selected_values 1 (ascii ''schedule'') \<lparr>user_settings = []\<rparr>"
  by (simp add: selected_values_def toggle_multi_value_def get_user_setting_def select_value_def
      save_user_setting_def insert_or_replace_def row_is_def parse_items_def py_strip_def
      is_space_def ascii_def Let_def)

section \<open>The salary line\<close>

text \<open>
  C7. The salary line is defined for every salary entry and has four forms. A missing
  salary and a salary that is no dict render the placeholder. For nonzero bounds \<open>a\<close>,
  \<open>b\<close> and currency \<open>cur\<close>: a dict with both bounds renders \<open>a\<close>, an en dash, \<open>b\<close>, a
  blank and \<open>cur\<close>; with the lower bound only (the upper one missing or null) the word
  for "from", \<open>a\<close> and \<open>cur\<close>; with the upper bound only the word for "up to", \<open>b\<close> and
  \<open>cur\<close>. The witness is the spec's example: 100, 200 and RUR.
\<close>

theorem format_salary_four_cases:
  "format_salary SalaryMissing = not_specified \<and>
   format_salary SalaryNoDict = not_specified \<and>
   (a \<noteq> 0 \<and> b \<noteq> 0 \<longrightarrow>
      format_salary (SalaryDict [(ascii ''from'', SInt a), (ascii ''to'', SInt b),
                                 (ascii ''currency'', SStr cur)])
      = py_str_int a @ [en_dash] @ py_str_int b @ [32] @ cur) \<and>
   (a \<noteq> 0 \<longrightarrow>
      format_salary (SalaryDict [(ascii ''from'', SInt a), (ascii ''currency'', SStr cur)])
      = word_from @ [32] @ py_str_int a @ [32] @ cur \<and>
      format_salary (SalaryDict [(ascii ''from'', SInt a), (ascii ''to'', SNone),
                                 (ascii ''currency'', SStr cur)])
      = word_from @ [32] @ py_str_int a @ [32] @ cur) \<and>
   (b \<noteq> 0 \<longrightarrow>
      format_salary (SalaryDict [(ascii ''to'', SInt b), (ascii ''currency'', SStr cur)])
      = word_to @ [32] @ py_str_int b @ [32] @ cur \<and>
      format_salary (SalaryDict [(ascii ''from'', SNone), (ascii ''to'', SInt b),
                                 (ascii ''currency'', SStr cur)])
      = word_to @ [32] @ py_str_int b @ [32] @ cur)"
  by (simp add: format_salary_def dict_get_def)

theorem format_salary_four_cases_witness:
  "(100::int) \<noteq> 0 \<and> (200::int) \<noteq> 0 \<and>
   format_salary (SalaryDict [(ascii ''from'', SInt 100), (ascii ''to'', SInt 200),
                              (ascii ''currency'', SStr (ascii ''RUR''))])
     = ascii ''100'' @ [8211] @ ascii ''200 RUR'' \<and>
   format_salary (SalaryDict [(ascii ''from'', SInt 100), (ascii ''currency'', SStr (ascii ''RUR''))])
     = [1086, 1090] @ ascii '' 100 RUR'' \<and>
   format_salary (SalaryDict [(ascii ''to'', SInt 200), (ascii ''currency'', SStr (ascii ''RUR''))])
     = [1076, 1086] @ ascii '' 200 RUR'' \<and>
   format_salary SalaryMissing = [1085, 1077, 32, 1091, 1082, 1072, 1079, 1072, 1085, 1072] \<and>
   format_salary SalaryNoDict = [1085, 1077, 32, 1091, 1082, 1072, 1079, 1072, 1085, 1072]"
proof -
  have d: "py_str_int 100 = ascii ''100''" "py_str_int 200 = ascii ''200''"
    by (simp_all add: py_str_int_def digits.simps ascii_def)
  show ?thesis
    using format_salary_four_cases [of 100 200 "ascii ''RUR''"]
    by (simp add: d en_dash_def word_from_def word_to_def not_specified_def) (simp add: ascii_def)
qed

text \<open>
  C10. A bound that is 0 counts as absent: with \<^verbatim>\<open>from\<close> 0 and a nonzero \<^verbatim>\<open>to\<close> the line
  is the "up to" form, not a range starting at 0; when each bound is 0, null or missing
  the line is the placeholder.
\<close>

theorem format_salary_zero_bound:
  "(dict_get d ''from'' SNone = SInt 0 \<and> dict_get d ''to'' SNone = SInt b \<and> b \<noteq> 0 \<longrightarrow>
      format_salary (SalaryDict d) =
        word_to @ [32] @ py_str_int b @ [32] @ py_format (dict_get d ''currency'' (SStr []))) \<and>
   ((dict_get d2 ''from'' SNone = SInt 0 \<or> dict_get d2 ''from'' SNone = SNone) \<and>
    (dict_get d2 ''to'' SNone = SInt 0 \<or> dict_get d2 ''to'' SNone = SNone) \<longrightarrow>
      format_salary (SalaryDict d2) = not_specified)"
  by (auto simp: format_salary_def Let_def)

theorem format_salary_zero_bound_witness:
  "format_salary (SalaryDict [(ascii ''from'', SInt 0), (ascii ''to'', SInt 200),
                              (ascii ''currency'', SStr (ascii ''RUR''))])
     = [1076, 1086] @ ascii '' 200 RUR'' \<and>
   format_salary (SalaryDict [(ascii ''from'', SInt 0), (ascii ''to'', SInt 0),
                              (ascii ''currency'', SStr (ascii ''RUR''))])
     = [1085, 1077, 32, 1091, 1082, 1072, 1079, 1072, 1085, 1072] \<and>
   format_salary (SalaryDict [(ascii ''currency'', SStr (ascii ''RUR''))])
     = [1085, 1077, 32, 1091, 1082, 1072, 1079, 1072, 1085, 1072]"
proof -
  have d: "py_str_int 200 = ascii ''200''"
    by (simp add: py_str_int_def digits.simps ascii_def)
  have 1: "format_salary (SalaryDict [(ascii ''from'', SInt 0), (ascii ''to'', SInt 200),
                              (ascii ''currency'', SStr (ascii ''RUR''))])
     = [1076, 1086] @ ascii '' 200 RUR''"
    using format_salary_zero_bound [of "[(ascii ''from'', SInt 0), (ascii ''to'', SInt 200),
                              (ascii ''currency'', SStr (ascii ''RUR''))]" 200 "[]"]
    by (simp add: dict_get_def d word_to_def) (simp add: ascii_def)
  have 2: "format_salary (SalaryDict [(ascii ''from'', SInt 0), (ascii ''to'', SInt 0),
                              (ascii ''currency'', SStr (ascii ''RUR''))])
     = [1085, 1077, 32, 1091, 1082, 1072, 1079, 1072, 1085, 1072]"
    using format_salary_zero_bound [of "[]" 0 "[(ascii ''from'', SInt 0), (ascii ''to'', SInt 0),
                              (ascii ''currency'', SStr (ascii ''RUR''))]"]
    by (simp add: dict_get_def not_specified_def)
  have 3: "format_salary (SalaryDict [(ascii ''currency'', SStr (ascii ''RUR''))])
     = [1085, 1077, 32, 1091, 1082, 1072, 1079, 1072, 1085, 1072]"
    using format_salary_zero_bound [of "[]" 0 "[(ascii ''currency'', SStr (ascii ''RUR''))]"]
    by (simp add: dict_get_def not_specified_def)
  from 1 2 3 show ?thesis by simp
qed

section \<open>The description of a card\<close>




section \<open>The automatic batch\<close>

text \<open>
  C1 fails on the code. No \<^verbatim>\<open>start_auto\<close> batch catches a failure, goes on and reports
  N/20, because none gets that far. After answering the callback the branch calls \<^verbatim>\<open>fetch_vacancies\<close>,
  which no file of the repository defines or imports: with the configured token, every
  press of the button ends in NameError (or in the error of the answer to the callback),
  and all that leaves the process is that answer: no letter is requested, no application
  is made, no report is sent. And with a definition of \<^verbatim>\<open>fetch_vacancies\<close> supplied from
  outside, the letter is still generated before the \<^verbatim>\<open>try\<close> that guards \<^verbatim>\<open>send_apply\<close>: when
  the first of two letters cannot be generated the handler ends with that error, the
  second posting is never reached and no report is sent.
\<close>

theorem start_auto_raises_name_error:
  "fst (telegram_webhook (env\<lparr>fetch_vacancies := None\<rparr>) (bot_token env)
          (CallbackQuery uid cid mid StartAuto) w) =
     (case tg_outcome_of env (calls w Telegram) of
        TgOk \<Rightarrow> Inl NameError
      | TgBad b \<Rightarrow> Inl (TelegramBadRequest b)
      | TgFailure \<Rightarrow> Inl TelegramFailure) \<and>
   trace (snd (telegram_webhook (env\<lparr>fetch_vacancies := None\<rparr>) (bot_token env)
          (CallbackQuery uid cid mid StartAuto) w)) = trace w @ [AnswerCallback cid None] \<and>
   fst (telegram_webhook
          (env1\<lparr>fetch_vacancies := Some (\<lambda>uid. ret [posting 0, posting 1]),
                llm_text := (\<lambda>n. if n = 0 then None else Some (ascii ''Hello''))\<rparr>)
          (ascii ''T'') (CallbackQuery 1 (ascii ''q'') 5 StartAuto) world1) = Inl UpstreamError \<and>
   trace (snd (telegram_webhook
          (env1\<lparr>fetch_vacancies := Some (\<lambda>uid. ret [posting 0, posting 1]),
                llm_text := (\<lambda>n. if n = 0 then None else Some (ascii ''Hello''))\<rparr>)
          (ascii ''T'') (CallbackQuery 1 (ascii ''q'') 5 StartAuto) world1)) =
     [AnswerCallback (ascii ''q'') None, HhResumeText None (ascii ''r1''),
      LlmCreate (SnippetText (ascii ''work'')) (ascii ''Engineer'')]"
proof -
  have a: "fst (telegram_webhook (env\<lparr>fetch_vacancies := None\<rparr>) (bot_token env)
          (CallbackQuery uid cid mid StartAuto) w) =
     (case tg_outcome_of env (calls w Telegram) of
        TgOk \<Rightarrow> Inl NameError
      | TgBad b \<Rightarrow> Inl (TelegramBadRequest b)
      | TgFailure \<Rightarrow> Inl TelegramFailure)"
    by (simp add: telegram_webhook_def start_auto_def seq_def and_then_def modify_def
        telegram_def external_def ret_def throw_def ensure_user_def split: tg_outcome.splits)
  have b: "trace (snd (telegram_webhook (env\<lparr>fetch_vacancies := None\<rparr>) (bot_token env)
          (CallbackQuery uid cid mid StartAuto) w)) = trace w @ [AnswerCallback cid None]"
    by (simp add: telegram_webhook_def start_auto_def seq_def and_then_def modify_def
        telegram_def external_def ret_def throw_def ensure_user_def split: tg_outcome.splits)
  have c: "telegram_webhook
          (env1\<lparr>fetch_vacancies := Some (\<lambda>uid. ret [posting 0, posting 1]),
                llm_text := (\<lambda>n. if n = 0 then None else Some (ascii ''Hello''))\<rparr>)
          (ascii ''T'') (CallbackQuery 1 (ascii ''q'') 5 StartAuto) world1 =
     (Inl UpstreamError,
      world1\<lparr>users := [\<lparr>u_chat = 1, u_settings_msg = None\<rparr>],
        trace := [AnswerCallback (ascii ''q'') None, HhResumeText None (ascii ''r1''),
          LlmCreate (SnippetText (ascii ''work'')) (ascii ''Engineer'')],
        calls := (\<lambda>s. if s = Telegram \<or> s = HhResumeApi \<or> s = Llm then 1 else 0)\<rparr>)"
    by (simp add: telegram_webhook_def start_auto_def auto_apply_def and_then_def seq_def
        get_resume_summary_def reads_def external_def modify_def telegram_def ensure_user_def
        ret_def throw_def generate_cover_letter_def env1_def world1_def posting_def vacancy_arg_def
        get_user_setting_def select_value_def row_is_def or_empty_def get_user_token_def
        client_token_def resume_key_def ascii_def fun_eq_iff)
  show ?thesis unfolding c using a b by simp
qed

text \<open>
  What the code after the fetch does when a definition of \<^verbatim>\<open>fetch_vacancies\<close> is supplied,
  every letter is generated, a resume is chosen and its summary fetched: the first 20
  postings each trigger exactly one request for a letter and one application, in order; an
  application that fails is logged as a warning and the loop goes on; after the loop one
  report is sent, and it counts exactly the applications that succeeded as N/20.
\<close>

theorem auto_apply_report:
  assumes llm: "\<And>n. llm_text env n \<noteq> None"
    and resume: "get_user_setting uid resume_key w = Some rid" "rid \<noteq> []"
    and summary: "hh_resume env (calls w HhResumeApi) = Some txt"
    and report: "tg_outcome_of env (calls w Telegram) = TgOk"
  shows "fst (auto_apply env uid vacancies w) = Inr () \<and>
    trace (snd (auto_apply env uid vacancies w)) =
      trace w @ [HhResumeText (client_token (get_user_token uid w)) rid] @
      loop_events env (client_token (get_user_token uid w)) rid (take 1200 txt)
        (calls w Llm) (calls w HhRespondApi) (take 20 vacancies) @
      [SendMessage uid
         (report_text (succeeded env (calls w HhRespondApi) (min 20 (length vacancies))))
         NoKeyboard] \<and>
    generations (drop (length (trace w)) (trace (snd (auto_apply env uid vacancies w)))) =
      map vacancy_arg (take 20 vacancies) \<and>
    submissions (drop (length (trace w)) (trace (snd (auto_apply env uid vacancies w)))) =
      map v_id (take 20 vacancies) \<and>
    length (warnings (drop (length (trace w)) (trace (snd (auto_apply env uid vacancies w))))) =
      failed env (calls w HhRespondApi) (min 20 (length vacancies)) \<and>
    (length vacancies = 20 \<and> failed env (calls w HhRespondApi) 20 = 3 \<longrightarrow>
       report_text (succeeded env (calls w HhRespondApi) (min 20 (length vacancies))) =
         msg_report_prefix @ ascii ''17/20'')"
proof -
  define tok where "tok = client_token (get_user_token uid w)"
  define w0 where "w0 = w\<lparr>trace := trace w @ [HhResumeText tok rid],
       calls := (calls w)(HhResumeApi := Suc (calls w HhResumeApi))\<rparr>"
  define vs where "vs = take 20 vacancies"
  define m where "m = min 20 (length vacancies)"
  define sent where "sent = succeeded env (calls w HhRespondApi) m"
  define evs where
    "evs = loop_events env tok rid (take 1200 txt) (calls w Llm) (calls w HhRespondApi) vs"
  have lvs: "length vs = m" by (simp add: vs_def m_def min.commute)
  have rs: "get_resume_summary env uid w = (Inr (take 1200 txt), w0)"
    unfolding w0_def tok_def using resume summary by (rule resume_summary_run)
  have r0: "get_user_setting uid resume_key w0 = Some rid"
    using resume(1) by (simp add: w0_def get_user_setting_def)
  have w0f: "calls w0 HhRespondApi = calls w HhRespondApi" "calls w0 Llm = calls w Llm"
    "calls w0 Telegram = calls w Telegram" "trace w0 = trace w @ [HhResumeText tok rid]"
    "client_token (get_user_token uid w0) = tok"
    by (simp_all add: w0_def tok_def get_user_token_def)
  obtain r w1 where loop: "auto_loop env uid (take 1200 txt) vs 0 w0 = (r, w1)"
    by (cases "auto_loop env uid (take 1200 txt) vs 0 w0") auto
  from auto_loop_run [of env uid w0 rid "take 1200 txt" vs 0, OF llm r0 resume(2)]
  have l1: "r = Inr sent" and l2: "trace w1 = trace w @ [HhResumeText tok rid] @ evs"
    and l3: "calls w1 Telegram = calls w Telegram"
    by (simp_all add: loop w0f lvs sent_def evs_def)
  have run: "auto_apply env uid vacancies w =
      (Inr (), w1\<lparr>trace := trace w1 @ [SendMessage uid (report_text sent) NoKeyboard],
                  calls := (calls w1)(Telegram := Suc (calls w1 Telegram))\<rparr>)"
    using report
    by (simp add: auto_apply_def and_then_def seq_def rs loop [unfolded vs_def] l1 telegram_def
        external_def ret_def l3)
  have tr: "trace (snd (auto_apply env uid vacancies w)) =
      trace w @ [HhResumeText tok rid] @ evs @ [SendMessage uid (report_text sent) NoKeyboard]"
    by (simp add: run l2)
  have new: "drop (length (trace w)) (trace (snd (auto_apply env uid vacancies w))) =
      [HhResumeText tok rid] @ evs @ [SendMessage uid (report_text sent) NoKeyboard]"
    by (simp add: tr)
  have w: "length (warnings evs) = failed env (calls w HhRespondApi) m"
    using warnings_loop [of env tok rid "take 1200 txt" "calls w Llm" "calls w HhRespondApi" vs]
      succeeded_failed [of env "calls w HhRespondApi" m]
    by (simp add: evs_def lvs)
  have seventeen: "report_text 17 = msg_report_prefix @ ascii ''17/20''"
    by (simp add: report_text_def py_str_int_def digits.simps ascii_def)
  have last: "length vacancies = 20 \<and> failed env (calls w HhRespondApi) 20 = 3 \<longrightarrow>
      report_text sent = msg_report_prefix @ ascii ''17/20''"
  proof
    assume a: "length vacancies = 20 \<and> failed env (calls w HhRespondApi) 20 = 3"
    then have "m = 20" by (simp add: m_def)
    with a succeeded_failed [of env "calls w HhRespondApi" 20] have "sent = 17"
      by (simp add: sent_def)
    then show "report_text sent = msg_report_prefix @ ascii ''17/20''" by (simp add: seventeen)
  qed
  show ?thesis
    unfolding new
    using run tr w last
    by (simp add: generations_append submissions_append warnings_append generations_loop
        submissions_loop evs_def tok_def vs_def sent_def m_def)
qed

theorem auto_apply_report_witness:
  "(\<forall>n. llm_text env1 n \<noteq> None) \<and>
   get_user_setting 1 resume_key world1 = Some (ascii ''r1'') \<and> ascii ''r1'' \<noteq> [] \<and>
   hh_resume env1 (calls world1 HhResumeApi) = Some (ascii ''Engineer'') \<and>
   tg_outcome_of env1 (calls world1 Telegram) = TgOk \<and>
   length (map posting [0..<20]) = 20 \<and> failed env1 (calls world1 HhRespondApi) 20 = 3 \<and>
   fst (auto_apply env1 1 (map posting [0..<20]) world1) = Inr () \<and>
   last (trace (snd (auto_apply env1 1 (map posting [0..<20]) world1))) =
     SendMessage 1 (msg_report_prefix @ ascii ''17/20'') NoKeyboard \<and>
   length (generations (trace (snd (auto_apply env1 1 (map posting [0..<20]) world1)))) = 20 \<and>
   length (submissions (trace (snd (auto_apply env1 1 (map posting [0..<20]) world1)))) = 20 \<and>
   length (warnings (trace (snd (auto_apply env1 1 (map posting [0..<20]) world1)))) = 3"
proof -
  have a: "\<And>n. llm_text env1 n \<noteq> None" by (simp add: env1_def)
  have b: "get_user_setting 1 resume_key world1 = Some (ascii ''r1'')"
    by (simp add: world1_def get_user_setting_def select_value_def row_is_def)
  have c: "ascii ''r1'' \<noteq> []" by (simp add: ascii_def)
  have d: "hh_resume env1 (calls world1 HhResumeApi) = Some (ascii ''Engineer'')"
    by (simp add: env1_def)
  have e: "tg_outcome_of env1 (calls world1 Telegram) = TgOk" by (simp add: env1_def)
  have f: "failed env1 (calls world1 HhRespondApi) 20 = 3"
    by (simp add: failed_def env1_def world1_def upt_rec)
  have t: "trace world1 = []" by (simp add: world1_def)
  note th = auto_apply_report [of env1 1 world1 "ascii ''r1''" "ascii ''Engineer''"
      "map posting [0..<20]", OF a b c d e]
  have r: "fst (auto_apply env1 1 (map posting [0..<20]) world1) = Inr ()"
    using th [THEN conjunct1] .
  have g: "length (generations (trace (snd (auto_apply env1 1 (map posting [0..<20]) world1)))) = 20"
    using th [THEN conjunct2, THEN conjunct2, THEN conjunct1] by (simp add: t)
  have s: "length (submissions (trace (snd (auto_apply env1 1 (map posting [0..<20]) world1)))) = 20"
    using th [THEN conjunct2, THEN conjunct2, THEN conjunct2, THEN conjunct1] by (simp add: t)
  have w: "length (warnings (trace (snd (auto_apply env1 1 (map posting [0..<20]) world1)))) = 3"
    using th [THEN conjunct2, THEN conjunct2, THEN conjunct2, THEN conjunct2, THEN conjunct1] f
    by (simp add: t)
  have rep: "report_text (succeeded env1 (calls world1 HhRespondApi)
        (min 20 (length (map posting [0..<20]))))
      = msg_report_prefix @ ascii ''17/20''"
    using th [THEN conjunct2, THEN conjunct2, THEN conjunct2, THEN conjunct2, THEN conjunct2] f
    by simp
  have l: "last (trace (snd (auto_apply env1 1 (map posting [0..<20]) world1))) =
     SendMessage 1 (msg_report_prefix @ ascii ''17/20'') NoKeyboard"
    unfolding th [THEN conjunct2, THEN conjunct1] rep by simp
  show ?thesis
    using a b c d e f r g s w l by simp
qed

section \<open>The cursor of a pending-jobs row\<close>




section \<open>Commands that are not recognised, and updates that nothing handles\<close>

text \<open>
  C3 fails on the code. The text \<^verbatim>\<open>/foo\<close> begins with a slash and is none of \<^verbatim>\<open>/start\<close>,
  \<^verbatim>\<open>/jobs\<close>, \<^verbatim>\<open>/menu\<close> and \<^verbatim>\<open>/settings\<close>: no branch resets the pending field, and the text
  goes on to the pending input. Sent by a user who was asked for a region, it is stored as
  the region; sent by a user who was asked for a salary, it leaves the pending field set.
\<close>

theorem unknown_command_is_stored:
  "get_pending 1 (awaiting region_key) = Some region_key \<and>
   get_user_setting 1 region_key
     (snd (telegram_webhook env1 (ascii ''T'') (Message 1 9 (ascii ''/foo'')) (awaiting region_key)))
     = Some (ascii ''/foo'') \<and>
   get_pending 1
     (snd (telegram_webhook env1 (ascii ''T'') (Message 1 9 (ascii ''/foo'')) (awaiting salary_key)))
     = Some salary_key"
  by (simp add: run_defs)

text \<open>
  C4 fails on the code in its second half. A request with the right token whose text is no
  command, from a user with no pending field, falls through every branch: the handler ends
  without a \<^verbatim>\<open>return\<close> and answers None, not \<^verbatim>\<open>{"ok": true}\<close>. The first half holds: a request
  with another token is refused with 403 and the world is as it was.
\<close>

theorem unhandled_text_returns_none:
  "fst (telegram_webhook env1 (ascii ''T'') (Message 1 9 (ascii ''hello'')) world1) = Inr Null \<and>
   telegram_webhook env1 (ascii ''X'') upd w = (Inl HTTP403, w)"
  by (simp add: run_defs)

end
